theory Spec2Isabelle
  imports
    Main
    "HOL-Library.Char_ord"
    "HOL-Library.List_Lexorder"
    "HOL-Library.Product_Lexorder"
    "HOL-Library.Multiset"
    "HOL-Library.Sublist"
begin

section \<open>The JavaScript primitives the prompt library relies on\<close>

text \<open>
  The repository is TypeScript running on Node. The two files verified here are
  \<^verbatim>\<open>src/services/PromptService.ts\<close> (the in-memory store) and
  \<^verbatim>\<open>src/storage/FileStorage.ts\<close> (the YAML file with its backups). This section
  fixes the meaning of the built-in operations that those files call.

  Conventions of the embedding:
  \<^item> a JavaScript string is a \<open>string\<close> (characters are bytes; the case mapping is the
    ASCII one);
  \<^item> a JavaScript number is an \<open>int\<close>, which agrees with double arithmetic on safe
    integers; where an operation can produce \<open>NaN\<close> its result is an \<open>int option\<close>
    and \<open>None\<close> is \<open>NaN\<close>;
  \<^item> an optional property (\<open>description?: string\<close>) is an \<open>option\<close>;
  \<^item> an exception is a value: every operation that can throw returns a sum whose left
    summand is the error, together with the state it leaves behind.
\<close>

datatype js_error = Error string | TypeError string

type_synonym number = "int option"

subsection \<open>Strings\<close>

definition toLowerChar :: "char \<Rightarrow> char" where
  "toLowerChar c =
     (if CHR ''A'' \<le> c \<and> c \<le> CHR ''Z'' then char_of (of_char c + (32::nat)) else c)"

definition toLowerCase :: "string \<Rightarrow> string" where
  "toLowerCase s = map toLowerChar s"

text \<open>\<open>s.includes(q)\<close>: \<open>q\<close> occurs in \<open>s\<close> as a contiguous substring.\<close>

definition includes_str :: "string \<Rightarrow> string \<Rightarrow> bool" where
  "includes_str s q = sublist q s"

text \<open>\<open>s.startsWith(p)\<close> and \<open>s.endsWith(p)\<close>.\<close>

definition startsWith :: "string \<Rightarrow> string \<Rightarrow> bool" where
  "startsWith s p = prefix p s"

definition endsWith :: "string \<Rightarrow> string \<Rightarrow> bool" where
  "endsWith s p = suffix p s"

text \<open>\<open>s.split(sep)\<close> for a one-character separator; the result is never empty.\<close>

fun split :: "char \<Rightarrow> string \<Rightarrow> string list" where
  "split sep [] = [[]]"
| "split sep (c # cs) =
     (if c = sep then [] # split sep cs
      else (case split sep cs of
              [] \<Rightarrow> [[c]]
            | p # ps \<Rightarrow> (c # p) # ps))"

text \<open>\<open>xs[i]\<close> on an array: \<open>undefined\<close> (here \<open>None\<close>) out of range.\<close>

definition at_index :: "'a list \<Rightarrow> nat \<Rightarrow> 'a option" where
  "at_index xs i = (if i < length xs then Some (xs ! i) else None)"

subsection \<open>Numbers and their decimal text\<close>

definition isDigit :: "char \<Rightarrow> bool" where
  "isDigit c = (CHR ''0'' \<le> c \<and> c \<le> CHR ''9'')"

definition digitValue :: "char \<Rightarrow> nat" where
  "digitValue c = of_char c - 48"

definition digitChar :: "nat \<Rightarrow> char" where
  "digitChar d = char_of (48 + d)"

definition decimalValue :: "string \<Rightarrow> nat" where
  "decimalValue ds = foldl (\<lambda>a c. 10 * a + digitValue c) 0 ds"

fun stringOfNat :: "nat \<Rightarrow> string" where
  "stringOfNat n =
     (if n < 10 then [digitChar n] else stringOfNat (n div 10) @ [digitChar (n mod 10)])"

declare stringOfNat.simps [simp del]

text \<open>The text of a number in a template literal (\<open>`${n}`\<close>); \<open>NaN\<close> prints as such.\<close>

definition numberToString :: "number \<Rightarrow> string" where
  "numberToString n =
     (case n of
        None \<Rightarrow> ''NaN''
      | Some i \<Rightarrow> (if i < 0 then CHR ''-'' # stringOfNat (nat (- i)) else stringOfNat (nat i)))"

definition isWhiteSpace :: "char \<Rightarrow> bool" where
  "isWhiteSpace c = (c \<in> set [CHR '' '', CHR 0x09, CHR 0x0A, CHR 0x0B, CHR 0x0C, CHR 0x0D])"

text \<open>
  \<open>parseInt(s, 10)\<close>: leading white space is skipped, one sign is read, then the
  longest run of decimal digits; no digit at all gives \<open>NaN\<close>.
\<close>

definition parseInt :: "string \<Rightarrow> number" where
  "parseInt s =
     (let t = dropWhile isWhiteSpace s;
          neg = (t \<noteq> [] \<and> hd t = CHR ''-'');
          u = (if t \<noteq> [] \<and> (hd t = CHR ''-'' \<or> hd t = CHR ''+'') then tl t else t);
          ds = takeWhile isDigit u
      in if ds = [] then None
         else Some (if neg then - int (decimalValue ds) else int (decimalValue ds)))"


definition js_plus :: "number \<Rightarrow> number \<Rightarrow> number" where
  "js_plus a b = (case (a, b) of (Some x, Some y) \<Rightarrow> Some (x + y) | _ \<Rightarrow> None)"

subsection \<open>Arrays: \<open>Set\<close> deduplication, \<open>slice\<close>, \<open>sort\<close>\<close>

text \<open>
  \<open>[...new Set(xs)]\<close>: a \<open>Set\<close> keeps its members in insertion order and \<open>add\<close>
  ignores a value it already holds.
\<close>

definition set_add :: "'a list \<Rightarrow> 'a \<Rightarrow> 'a list" where
  "set_add s x = (if x \<in> set s then s else s @ [x])"

definition new_Set :: "'a list \<Rightarrow> 'a list" where
  "new_Set xs = foldl set_add [] xs"





subsection \<open>Objects used as dictionaries\<close>

text \<open>
  A \<open>Record<string, T>\<close> is an ordinary object: a list of own properties in
  enumeration order (array-index keys first, in numeric order, then the other keys in
  insertion order), with \<open>Object.prototype\<close> behind it. Reading \<open>obj[k]\<close> finds an own
  property, else a property inherited from \<open>Object.prototype\<close>, else \<open>undefined\<close>.
  The key \<open>__proto__\<close> is never an own property here: assigning to it would replace the
  prototype instead of adding a property.
\<close>

type_synonym 'a obj = "(string \<times> 'a) list"

definition ObjectPrototype_keys :: "string list" where
  "ObjectPrototype_keys =
     [''constructor'', ''__defineGetter__'', ''__defineSetter__'', ''hasOwnProperty'',
      ''__lookupGetter__'', ''__lookupSetter__'', ''isPrototypeOf'',
      ''propertyIsEnumerable'', ''toString'', ''valueOf'', ''__proto__'',
      ''toLocaleString'']"

datatype 'a property = Undefined | Inherited | Own 'a

definition js_get :: "'a obj \<Rightarrow> string \<Rightarrow> 'a property" where
  "js_get obj k =
     (case map_of obj k of
        Some v \<Rightarrow> Own v
      | None \<Rightarrow> (if k \<in> set ObjectPrototype_keys then Inherited else Undefined))"

definition isArrayIndex :: "string \<Rightarrow> bool" where
  "isArrayIndex k =
     (k \<noteq> [] \<and> list_all isDigit k \<and> (k = ''0'' \<or> hd k \<noteq> CHR ''0'')
      \<and> decimalValue k < 4294967295)"

text \<open>A new own property takes its place in the enumeration order.\<close>

fun add_property :: "string \<Rightarrow> 'a \<Rightarrow> 'a obj \<Rightarrow> 'a obj" where
  "add_property k v [] = [(k, v)]"
| "add_property k v ((k', v') # kvs) =
     (if isArrayIndex k \<and> (\<not> isArrayIndex k' \<or> decimalValue k < decimalValue k')
      then (k, v) # (k', v') # kvs
      else (k', v') # add_property k v kvs)"

text \<open>\<open>obj[k] = v\<close>: an existing own property keeps its place.\<close>

definition js_set :: "string \<Rightarrow> 'a \<Rightarrow> 'a obj \<Rightarrow> 'a obj" where
  "js_set k v obj =
     (if k \<in> fst ` set obj then map (\<lambda>(k', v'). if k' = k then (k', v) else (k', v')) obj
      else add_property k v obj)"


definition Object_keys :: "'a obj \<Rightarrow> string list" where
  "Object_keys obj = map fst obj"

text \<open>The representation invariant of an object: distinct keys, none of them \<open>__proto__\<close>.\<close>

definition wf_obj :: "'a obj \<Rightarrow> bool" where
  "wf_obj obj = (distinct (map fst obj) \<and> ''__proto__'' \<notin> fst ` set obj)"



section \<open>The data model (\<^verbatim>\<open>src/types/index.ts\<close>)\<close>

datatype VariableType = StringType | NumberType | BooleanType | ArrayType

datatype DefaultValue =
  DefaultString string | DefaultNumber int | DefaultBoolean bool | DefaultArray "string list"

record PromptVariable =
  var_name :: string
  var_description :: string
  var_type :: VariableType
  var_required :: bool
  var_defaultValue :: "DefaultValue option"

record PromptMetadata =
  createdAt :: string
  updatedAt :: string
  version :: string
  author :: "string option"
  usage :: "int option"

record Prompt =
  id' :: string
  title :: string
  content :: string
  description :: "string option"
  tags :: "string list"
  category :: string
  variables :: "PromptVariable list option"
  metadata :: PromptMetadata


record UpdatePromptRequest =
  upd_title :: "string option"
  upd_content :: "string option"
  upd_description :: "string option"
  upd_tags :: "string list option"
  upd_category :: "string option"
  upd_variables :: "PromptVariable list option"



text \<open>
  The \<open>StorageProvider\<close> interface. An implementation has a state of its own (\<open>'st\<close>);
  \<open>load\<close> and \<open>save\<close> may throw, and return the state they leave.
\<close>

record 'st StorageProvider =
  sp_load :: "'st \<Rightarrow> (js_error + Prompt obj) \<times> 'st"
  sp_save :: "Prompt obj \<Rightarrow> 'st \<Rightarrow> (js_error + unit) \<times> 'st"
  sp_backup :: "'st \<Rightarrow> (js_error + unit) \<times> 'st"

section \<open>The prompt store (\<^verbatim>\<open>PromptService\<close>)\<close>

text \<open>
  The fields of the class. \<open>randomUUID()\<close> and \<open>new Date().toISOString()\<close> are inputs
  of the operations that call them (\<open>uuid\<close>, \<open>now\<close>), and \<open>new Date(s).getTime()\<close> is
  the parameter \<open>getTime\<close>, \<open>NaN\<close> for a text that is no date.
\<close>

record 'st PromptService =
  prompts :: "Prompt obj"
  initialized :: bool
  storage :: 'st

definition initialize ::
  "'st StorageProvider \<Rightarrow> 'st PromptService \<Rightarrow> (js_error + unit) \<times> 'st PromptService" where
  "initialize sp s =
     (if initialized s then (Inr (), s)
      else (case sp_load sp (storage s) of
              (Inl e, st) \<Rightarrow> (Inl e, s\<lparr>storage := st\<rparr>)
            | (Inr loaded, st) \<Rightarrow>
                (Inr (), s\<lparr>prompts := loaded, initialized := True, storage := st\<rparr>)))"

definition ensureInitialized ::
  "'st StorageProvider \<Rightarrow> 'st PromptService \<Rightarrow> (js_error + unit) \<times> 'st PromptService" where
  "ensureInitialized sp s = (if \<not> initialized s then initialize sp s else (Inr (), s))"

text \<open>The write-through step that ends every mutating operation.\<close>

definition persist ::
  "'st StorageProvider \<Rightarrow> 'a \<Rightarrow> 'st PromptService \<Rightarrow> (js_error + 'a) \<times> 'st PromptService" where
  "persist sp r s =
     (case sp_save sp (prompts s) (storage s) of
        (Inl e, st) \<Rightarrow> (Inl e, s\<lparr>storage := st\<rparr>)
      | (Inr u, st) \<Rightarrow> (Inr r, s\<lparr>storage := st\<rparr>))"



definition incrementVersion :: "string \<Rightarrow> string" where
  "incrementVersion v =
     (let parts = split (CHR ''.'') v;
          third = (case at_index parts 2 of
                     None \<Rightarrow> ''0''
                   | Some p \<Rightarrow> (if p = [] then ''0'' else p));
          patch = js_plus (parseInt third) (Some 1);
          part = (\<lambda>i. case at_index parts i of None \<Rightarrow> ''undefined'' | Some p \<Rightarrow> p)
      in part 0 @ ''.'' @ part 1 @ ''.'' @ numberToString patch)"

definition updatePrompt ::
  "'st StorageProvider \<Rightarrow> string \<Rightarrow> string \<Rightarrow> UpdatePromptRequest \<Rightarrow> 'st PromptService
     \<Rightarrow> (js_error + Prompt option) \<times> 'st PromptService" where
  "updatePrompt sp now k request s0 =
     (case ensureInitialized sp s0 of
        (Inl e, s) \<Rightarrow> (Inl e, s)
      | (Inr u, s) \<Rightarrow>
          (case js_get (prompts s) k of
             Undefined \<Rightarrow> (Inr None, s)
           | Inherited \<Rightarrow>
               (Inl (TypeError ''Cannot read properties of undefined (reading 'version')''), s)
           | Own existingPrompt \<Rightarrow>
               (let updatedPrompt =
                      existingPrompt
                        \<lparr>title :=
                           (case upd_title request of
                              None \<Rightarrow> title existingPrompt | Some t \<Rightarrow> t),
                         content :=
                           (case upd_content request of
                              None \<Rightarrow> content existingPrompt | Some c \<Rightarrow> c),
                         description :=
                           (case upd_description request of
                              None \<Rightarrow> description existingPrompt | Some d \<Rightarrow> Some d),
                         tags :=
                           (case upd_tags request of
                              None \<Rightarrow> tags existingPrompt | Some ts \<Rightarrow> new_Set ts),
                         category :=
                           (case upd_category request of
                              None \<Rightarrow> category existingPrompt | Some c \<Rightarrow> c),
                         variables :=
                           (case upd_variables request of
                              None \<Rightarrow> variables existingPrompt | Some vs \<Rightarrow> Some vs),
                         metadata :=
                           (metadata existingPrompt)
                             \<lparr>updatedAt := now,
                              version := incrementVersion (version (metadata existingPrompt))\<rparr>\<rparr>
                in persist sp (Some updatedPrompt)
                     (s\<lparr>prompts := js_set k updatedPrompt (prompts s)\<rparr>))))"













subsection \<open>The in-memory provider of the unit tests (\<^verbatim>\<open>MockStorageProvider\<close>)\<close>

definition MockStorageProvider :: "(Prompt obj) StorageProvider" where
  "MockStorageProvider =
     \<lparr>sp_load = (\<lambda>data. (Inr data, data)),
      sp_save = (\<lambda>ps data. (Inr (), ps)),
      sp_backup = (\<lambda>data. (Inr (), data))\<rparr>"

subsection \<open>Calls made one after the other\<close>

text \<open>
  A caller that awaits each operation before it starts the next: the operations run
  in order on the state the previous one left, and the first exception ends the run.
\<close>

fun sequentially :: "('s \<Rightarrow> (js_error + 'a) \<times> 's) list \<Rightarrow> 's \<Rightarrow> (js_error + 'a list) \<times> 's" where
  "sequentially [] s = (Inr [], s)"
| "sequentially (f # fs) s =
     (case f s of
        (Inl e, s1) \<Rightarrow> (Inl e, s1)
      | (Inr r, s1) \<Rightarrow>
          (case sequentially fs s1 of
             (Inl e, s2) \<Rightarrow> (Inl e, s2)
           | (Inr rs, s2) \<Rightarrow> (Inr (r # rs), s2)))"

subsection \<open>The fixture of the unit tests\<close>

text \<open>
  The record the \<open>getPrompt\<close> unit test stores under the key \<open>123\<close> (usage 5), and a
  service hydrated from a mock provider that holds it.
\<close>

definition testPrompt :: Prompt where
  "testPrompt =
     \<lparr>id' = ''123'',
      title = ''Test Prompt'',
      content = ''Content'',
      description = None,
      tags = [''test''],
      category = ''testing'',
      variables = None,
      metadata =
        \<lparr>createdAt = ''2023-01-01T00:00:00.000Z'',
         updatedAt = ''2023-01-01T00:00:00.000Z'',
         version = ''1.0.0'',
         author = None,
         usage = Some 5\<rparr>\<rparr>"


section \<open>The persistence adapter (\<^verbatim>\<open>FileStorage\<close>)\<close>

subsection \<open>Untyped values\<close>

text \<open>
  What \<open>YAML.parse\<close> returns is \<open>unknown\<close> to the code: a JavaScript value. Numbers
  are integers here; an object is the list of its own properties.
\<close>

datatype jsval =
  JUndefined
| JNull
| JBool bool
| JNum int
| JStr string
| JArr "jsval list"
| JObj "(string \<times> jsval) list"

definition typeof :: "jsval \<Rightarrow> string" where
  "typeof v =
     (case v of
        JUndefined \<Rightarrow> ''undefined''
      | JNull \<Rightarrow> ''object''
      | JBool b \<Rightarrow> ''boolean''
      | JNum n \<Rightarrow> ''number''
      | JStr s \<Rightarrow> ''string''
      | JArr xs \<Rightarrow> ''object''
      | JObj kvs \<Rightarrow> ''object'')"

definition js_truthy :: "jsval \<Rightarrow> bool" where
  "js_truthy v =
     (case v of
        JUndefined \<Rightarrow> False
      | JNull \<Rightarrow> False
      | JBool b \<Rightarrow> b
      | JNum n \<Rightarrow> n \<noteq> 0
      | JStr s \<Rightarrow> s \<noteq> []
      | JArr xs \<Rightarrow> True
      | JObj kvs \<Rightarrow> True)"

definition Array_isArray :: "jsval \<Rightarrow> bool" where
  "Array_isArray v = (case v of JArr xs \<Rightarrow> True | _ \<Rightarrow> False)"

text \<open>
  \<open>v.name\<close> for the six names \<open>isValidPrompt\<close> reads; none of them is defined by a
  prototype, so the value is the own property or \<open>undefined\<close>.
\<close>

definition property_of :: "jsval \<Rightarrow> string \<Rightarrow> jsval" where
  "property_of v name =
     (case v of
        JObj kvs \<Rightarrow> (case map_of kvs name of None \<Rightarrow> JUndefined | Some x \<Rightarrow> x)
      | _ \<Rightarrow> JUndefined)"

text \<open>\<open>Object.entries\<close>: the own properties of an object, the indexed elements of an array.\<close>

definition Object_entries :: "jsval \<Rightarrow> (string \<times> jsval) list" where
  "Object_entries v =
     (case v of
        JObj kvs \<Rightarrow> kvs
      | JArr xs \<Rightarrow> zip (map stringOfNat [0..<length xs]) xs
      | _ \<Rightarrow> [])"

text \<open>A typed record as the value the serialiser sees; an absent optional field is no property.\<close>

definition optional_property :: "string \<Rightarrow> 'a option \<Rightarrow> ('a \<Rightarrow> jsval) \<Rightarrow> (string \<times> jsval) list" where
  "optional_property name v f = (case v of None \<Rightarrow> [] | Some x \<Rightarrow> [(name, f x)])"

definition variableTypeToJS :: "VariableType \<Rightarrow> jsval" where
  "variableTypeToJS t =
     JStr (case t of
             StringType \<Rightarrow> ''string''
           | NumberType \<Rightarrow> ''number''
           | BooleanType \<Rightarrow> ''boolean''
           | ArrayType \<Rightarrow> ''array'')"

definition defaultValueToJS :: "DefaultValue \<Rightarrow> jsval" where
  "defaultValueToJS d =
     (case d of
        DefaultString s \<Rightarrow> JStr s
      | DefaultNumber n \<Rightarrow> JNum n
      | DefaultBoolean b \<Rightarrow> JBool b
      | DefaultArray xs \<Rightarrow> JArr (map JStr xs))"

definition variableToJS :: "PromptVariable \<Rightarrow> jsval" where
  "variableToJS v =
     JObj ([(''name'', JStr (var_name v)),
            (''description'', JStr (var_description v)),
            (''type'', variableTypeToJS (var_type v)),
            (''required'', JBool (var_required v))]
           @ optional_property ''defaultValue'' (var_defaultValue v) defaultValueToJS)"

definition metadataToJS :: "PromptMetadata \<Rightarrow> jsval" where
  "metadataToJS m =
     JObj ([(''createdAt'', JStr (createdAt m)),
            (''updatedAt'', JStr (updatedAt m)),
            (''version'', JStr (version m))]
           @ optional_property ''author'' (author m) JStr
           @ optional_property ''usage'' (usage m) JNum)"

definition promptToJS :: "Prompt \<Rightarrow> jsval" where
  "promptToJS p =
     JObj ([(''id'', JStr (id' p)),
            (''title'', JStr (title p)),
            (''content'', JStr (content p))]
           @ optional_property ''description'' (description p) JStr
           @ [(''tags'', JArr (map JStr (tags p))),
              (''category'', JStr (category p))]
           @ optional_property ''variables'' (variables p) (\<lambda>vs. JArr (map variableToJS vs))
           @ [(''metadata'', metadataToJS (metadata p))])"

definition promptsToJS :: "Prompt obj \<Rightarrow> jsval" where
  "promptsToJS ps = JObj (map (\<lambda>(k, p). (k, promptToJS p)) ps)"

subsection \<open>The YAML library and the file system\<close>

text \<open>
  \<open>YAML.stringify\<close> and \<open>YAML.parse\<close> are parameters; \<open>'txt\<close> is the text of a
  file. \<open>parse\<close> throws on a text that is no YAML document.
\<close>

record 'txt YAML =
  stringify :: "jsval \<Rightarrow> 'txt"
  parse :: "'txt \<Rightarrow> js_error + jsval"

text \<open>
  The part of the file system the adapter touches: the data directory, the file
  \<open>prompts.yaml\<close> in it, and the directory \<open>backups\<close> with its files by name. A call
  listed in \<open>faults\<close> fails with an I/O error; \<open>access\<close> fails exactly when its path
  does not exist. \<open>console\<close> collects what the adapter logs.
\<close>

datatype path = DataDir | DataPath | BackupPath | BackupFile string

datatype fs_call = Mkdir | ReadFile | WriteFile | CopyFile | Readdir | Unlink string

datatype console_line = ConsoleError string js_error | ConsoleWarn string "js_error option"

record 'txt FileSystem =
  dataDirExists :: bool
  dataFile :: "'txt option"
  backupDir :: "(string \<times> 'txt) list option"
  faults :: "fs_call list"
  console :: "console_line list"

definition io_error :: js_error where
  "io_error = Error ''EIO: i/o error''"

definition enoent :: js_error where
  "enoent = Error ''ENOENT: no such file or directory''"

definition message :: "js_error \<Rightarrow> string" where
  "message e = (case e of Error m \<Rightarrow> m | TypeError m \<Rightarrow> m)"

definition path_exists :: "path \<Rightarrow> 'txt FileSystem \<Rightarrow> bool" where
  "path_exists p fs =
     (case p of
        DataDir \<Rightarrow> dataDirExists fs
      | DataPath \<Rightarrow> dataFile fs \<noteq> None
      | BackupPath \<Rightarrow> backupDir fs \<noteq> None
      | BackupFile name \<Rightarrow>
          (case backupDir fs of None \<Rightarrow> False | Some files \<Rightarrow> name \<in> fst ` set files))"

text \<open>\<open>fs.mkdir(dir, {recursive: true})\<close> creates the missing parents as well.\<close>

definition mkdir :: "path \<Rightarrow> 'txt FileSystem \<Rightarrow> (js_error + unit) \<times> 'txt FileSystem" where
  "mkdir p fs =
     (if Mkdir \<in> set (faults fs) then (Inl io_error, fs)
      else (case p of
              BackupPath \<Rightarrow>
                (Inr (), fs\<lparr>dataDirExists := True,
                            backupDir := Some (case backupDir fs of None \<Rightarrow> [] | Some files \<Rightarrow> files)\<rparr>)
            | _ \<Rightarrow> (Inr (), fs\<lparr>dataDirExists := True\<rparr>)))"

definition readFile :: "'txt FileSystem \<Rightarrow> (js_error + 'txt) \<times> 'txt FileSystem" where
  "readFile fs =
     (if ReadFile \<in> set (faults fs) then (Inl io_error, fs)
      else (case dataFile fs of None \<Rightarrow> (Inl enoent, fs) | Some txt \<Rightarrow> (Inr txt, fs)))"

definition writeFile :: "'txt \<Rightarrow> 'txt FileSystem \<Rightarrow> (js_error + unit) \<times> 'txt FileSystem" where
  "writeFile txt fs =
     (if WriteFile \<in> set (faults fs) then (Inl io_error, fs)
      else if \<not> dataDirExists fs then (Inl enoent, fs)
      else (Inr (), fs\<lparr>dataFile := Some txt\<rparr>))"

text \<open>A file written into a directory replaces the file of that name or is a new entry.\<close>

definition put_file :: "string \<Rightarrow> 'txt \<Rightarrow> (string \<times> 'txt) list \<Rightarrow> (string \<times> 'txt) list" where
  "put_file name txt files =
     (if name \<in> fst ` set files
      then map (\<lambda>(n, t). if n = name then (n, txt) else (n, t)) files
      else files @ [(name, txt)])"

text \<open>\<open>fs.copyFile(dataPath, backupFilePath)\<close>; an existing destination is overwritten.\<close>

definition copyFile :: "string \<Rightarrow> 'txt FileSystem \<Rightarrow> (js_error + unit) \<times> 'txt FileSystem" where
  "copyFile name fs =
     (if CopyFile \<in> set (faults fs) then (Inl io_error, fs)
      else (case (dataFile fs, backupDir fs) of
              (Some txt, Some files) \<Rightarrow> (Inr (), fs\<lparr>backupDir := Some (put_file name txt files)\<rparr>)
            | _ \<Rightarrow> (Inl enoent, fs)))"

definition readdir :: "'txt FileSystem \<Rightarrow> (js_error + string list) \<times> 'txt FileSystem" where
  "readdir fs =
     (if Readdir \<in> set (faults fs) then (Inl io_error, fs)
      else (case backupDir fs of
              None \<Rightarrow> (Inl enoent, fs)
            | Some files \<Rightarrow> (Inr (map fst files), fs)))"

definition unlink :: "string \<Rightarrow> 'txt FileSystem \<Rightarrow> (js_error + unit) \<times> 'txt FileSystem" where
  "unlink name fs =
     (if Unlink name \<in> set (faults fs) then (Inl io_error, fs)
      else (case backupDir fs of
              None \<Rightarrow> (Inl enoent, fs)
            | Some files \<Rightarrow>
                (if name \<in> fst ` set files
                 then (Inr (), fs\<lparr>backupDir := Some (filter (\<lambda>(n, t). n \<noteq> name) files)\<rparr>)
                 else (Inl enoent, fs))))"

definition console_log :: "console_line \<Rightarrow> 'txt FileSystem \<Rightarrow> 'txt FileSystem" where
  "console_log l fs = fs\<lparr>console := console fs @ [l]\<rparr>"

subsection \<open>Sequencing and \<open>try\<close>/\<open>catch\<close>\<close>

definition and_then ::
  "('s \<Rightarrow> (js_error + 'a) \<times> 's) \<Rightarrow> ('a \<Rightarrow> 's \<Rightarrow> (js_error + 'b) \<times> 's)
     \<Rightarrow> 's \<Rightarrow> (js_error + 'b) \<times> 's" where
  "and_then m f s = (case m s of (Inl e, s1) \<Rightarrow> (Inl e, s1) | (Inr x, s1) \<Rightarrow> f x s1)"

definition try_catch ::
  "('s \<Rightarrow> (js_error + 'a) \<times> 's) \<Rightarrow> (js_error \<Rightarrow> 's \<Rightarrow> (js_error + 'a) \<times> 's)
     \<Rightarrow> 's \<Rightarrow> (js_error + 'a) \<times> 's" where
  "try_catch m h s = (case m s of (Inl e, s1) \<Rightarrow> h e s1 | (Inr x, s1) \<Rightarrow> (Inr x, s1))"

definition return :: "'a \<Rightarrow> 's \<Rightarrow> (js_error + 'a) \<times> 's" where
  "return x s = (Inr x, s)"

text \<open>The \<open>catch\<close> blocks of \<open>load\<close>, \<open>save\<close> and \<open>backup\<close>: log, then throw a new error.\<close>

definition log_and_rethrow ::
  "string \<Rightarrow> string \<Rightarrow> js_error \<Rightarrow> 'txt FileSystem \<Rightarrow> (js_error + 'a) \<times> 'txt FileSystem" where
  "log_and_rethrow label intro e fs =
     (Inl (Error (intro @ message e)), console_log (ConsoleError label e) fs)"

subsection \<open>The adapter's operations\<close>

text \<open>
  \<open>new Date().toISOString()\<close> is the input \<open>now\<close> of the operations that can make a
  backup. \<open>load\<close> returns what it read as it is (the cast to \<open>Record<string, Prompt>\<close>
  checks nothing), so its result is a dictionary of untyped values.
\<close>

definition ensureDirectoryExists ::
  "path option \<Rightarrow> 'txt FileSystem \<Rightarrow> (js_error + unit) \<times> 'txt FileSystem" where
  "ensureDirectoryExists dirPath fs =
     (let targetPath = (case dirPath of None \<Rightarrow> DataDir | Some p \<Rightarrow> p)
      in if path_exists targetPath fs then (Inr (), fs) else mkdir targetPath fs)"

definition fileExists :: "path \<Rightarrow> 'txt FileSystem \<Rightarrow> bool" where
  "fileExists filePath fs = path_exists filePath fs"

definition isValidPrompt :: "jsval \<Rightarrow> bool" where
  "isValidPrompt v =
     (if \<not> js_truthy v \<or> typeof v \<noteq> ''object'' then False
      else typeof (property_of v ''id'') = ''string''
           \<and> typeof (property_of v ''title'') = ''string''
           \<and> typeof (property_of v ''content'') = ''string''
           \<and> Array_isArray (property_of v ''tags'')
           \<and> typeof (property_of v ''category'') = ''string''
           \<and> typeof (property_of v ''metadata'') = ''object''
           \<and> property_of v ''metadata'' \<noteq> JNull)"

definition invalid_warning :: "string \<Rightarrow> console_line" where
  "invalid_warning key =
     ConsoleWarn (''Invalid prompt data for key '' @ key @ '', skipping'') None"

text \<open>The result of \<open>validateAndTransformData\<close>, and the warnings it logs on the way.\<close>

definition validateAndTransformData :: "jsval \<Rightarrow> jsval obj \<times> console_line list" where
  "validateAndTransformData data =
     (if \<not> js_truthy data \<or> typeof data \<noteq> ''object'' then ([], [])
      else fold (\<lambda>(key, v) (result, warnings).
                   if isValidPrompt v then (js_set key v result, warnings)
                   else (result, warnings @ [invalid_warning key]))
             (Object_entries data) ([], []))"

definition isBackupFile :: "string \<Rightarrow> bool" where
  "isBackupFile file = (startsWith file ''prompts-backup-'' \<and> endsWith file ''.yaml'')"

fun unlink_each :: "string list \<Rightarrow> 'txt FileSystem \<Rightarrow> (js_error + unit) \<times> 'txt FileSystem" where
  "unlink_each [] fs = (Inr (), fs)"
| "unlink_each (file # files) fs =
     (case unlink file fs of
        (Inl e, fs1) \<Rightarrow> (Inl e, fs1)
      | (Inr u, fs1) \<Rightarrow> unlink_each files fs1)"

definition cleanupOldBackups :: "'txt FileSystem \<Rightarrow> (js_error + unit) \<times> 'txt FileSystem" where
  "cleanupOldBackups =
     try_catch
       (and_then readdir (\<lambda>files.
          (let backupFiles = rev (sort (filter isBackupFile files))
           in if length backupFiles > 10 then unlink_each (drop 10 backupFiles)
              else return ())))
       (\<lambda>error fs.
          (Inr (), console_log (ConsoleWarn ''Warning: Could not cleanup old backups:'' (Some error)) fs))"

definition backupFileName :: "string \<Rightarrow> string" where
  "backupFileName now =
     ''prompts-backup-''
     @ map (\<lambda>c. if c = CHR '':'' \<or> c = CHR ''.'' then CHR ''-'' else c) now
     @ ''.yaml''"

definition backup :: "string \<Rightarrow> 'txt FileSystem \<Rightarrow> (js_error + unit) \<times> 'txt FileSystem" where
  "backup now =
     try_catch
       (and_then (ensureDirectoryExists (Some BackupPath)) (\<lambda>u fs.
          if fileExists DataPath fs
          then and_then (copyFile (backupFileName now)) (\<lambda>u. cleanupOldBackups) fs
          else return () fs))
       (log_and_rethrow ''Error creating backup:'' ''Failed to create backup: '')"

definition save ::
  "'txt YAML \<Rightarrow> string \<Rightarrow> Prompt obj \<Rightarrow> 'txt FileSystem \<Rightarrow> (js_error + unit) \<times> 'txt FileSystem" where
  "save yaml now ps =
     try_catch
       (and_then (ensureDirectoryExists None) (\<lambda>u fs.
          and_then (if fileExists DataPath fs then backup now else return ())
            (\<lambda>u. writeFile (stringify yaml (promptsToJS ps))) fs))
       (log_and_rethrow ''Error saving prompts:'' ''Failed to save prompts: '')"

definition load ::
  "'txt YAML \<Rightarrow> string \<Rightarrow> 'txt FileSystem \<Rightarrow> (js_error + jsval obj) \<times> 'txt FileSystem" where
  "load yaml now =
     try_catch
       (and_then (ensureDirectoryExists None) (\<lambda>u fs.
          if \<not> fileExists DataPath fs
          then and_then (save yaml now []) (\<lambda>u. return []) fs
          else and_then readFile (\<lambda>yamlContent fs1.
                 (case parse yaml yamlContent of
                    Inl e \<Rightarrow> (Inl e, fs1)
                  | Inr parsed \<Rightarrow>
                      (let data = (if js_truthy parsed then parsed else JObj []);
                           (result, warnings) = validateAndTransformData data
                       in (Inr result, fs1\<lparr>console := console fs1 @ warnings\<rparr>)))) fs))
       (log_and_rethrow ''Error loading prompts:'' ''Failed to load prompts: '')"

subsection \<open>Vocabulary of the statements\<close>

text \<open>
  The text of a \<open>crypto.randomUUID()\<close> result: 36 characters, hexadecimal digits in
  groups of 8, 4, 4, 4 and 12 separated by hyphens.
\<close>

definition isHexDigit :: "char \<Rightarrow> bool" where
  "isHexDigit c = (isDigit c \<or> (CHR ''a'' \<le> c \<and> c \<le> CHR ''f''))"

definition isUUID :: "string \<Rightarrow> bool" where
  "isUUID u =
     (length u = 36
      \<and> list_all (\<lambda>i. if i \<in> set [8, 13, 18, 23] then u ! i = CHR ''-'' else isHexDigit (u ! i))
           [0..<36])"




text \<open>
  A service holding two records with the versions of the specification's update
  example, \<open>1.0.2\<close> and \<open>2.3.9\<close>, and the update request of the unit test.
\<close>

definition versionedService :: "(Prompt obj) PromptService" where
  "versionedService =
     \<lparr>prompts =
        [(''p1'', testPrompt\<lparr>id' := ''p1'', description := Some ''First'',
                    metadata := (metadata testPrompt)\<lparr>version := ''1.0.2''\<rparr>\<rparr>),
         (''p2'', testPrompt\<lparr>id' := ''p2'',
                    metadata := (metadata testPrompt)\<lparr>version := ''2.3.9''\<rparr>\<rparr>)],
      initialized = True,
      storage = []\<rparr>"

definition testUpdateRequest :: UpdatePromptRequest where
  "testUpdateRequest =
     \<lparr>upd_title = Some ''Updated Title'',
      upd_content = None,
      upd_description = None,
      upd_tags = Some [''tag1'', ''tag2'', ''tag1'', ''tag3'', ''tag2''],
      upd_category = None,
      upd_variables = None\<rparr>"



















text \<open>
  The shape check of \<open>load\<close> in the specification's words: an object with a string
  \<open>id\<close>, \<open>title\<close>, \<open>content\<close> and \<open>category\<close>, an array \<open>tags\<close>, and a
  \<open>metadata\<close> that is an object (an array is one) and not \<open>null\<close>.
\<close>

definition hasString :: "(string \<times> jsval) list \<Rightarrow> string \<Rightarrow> bool" where
  "hasString kvs name = (\<exists>s. map_of kvs name = Some (JStr s))"

definition wellFormedRecord :: "jsval \<Rightarrow> bool" where
  "wellFormedRecord v =
     (\<exists>kvs. v = JObj kvs
        \<and> hasString kvs ''id'' \<and> hasString kvs ''title'' \<and> hasString kvs ''content''
        \<and> (\<exists>xs. map_of kvs ''tags'' = Some (JArr xs))
        \<and> hasString kvs ''category''
        \<and> (\<exists>m. map_of kvs ''metadata'' = Some m \<and> ((\<exists>f. m = JObj f) \<or> (\<exists>xs. m = JArr xs))))"

text \<open>
  A stand-in for the YAML library in the examples: the text of a file is the value it
  denotes, or a text that denotes none.
\<close>

definition testYAML :: "(jsval option) YAML" where
  "testYAML =
     \<lparr>stringify = Some,
      parse = (\<lambda>txt. case txt of
                        None \<Rightarrow> Inl (Error ''Unexpected end of flow sequence'')
                      | Some v \<Rightarrow> Inr v)\<rparr>"


definition fileSystemWith :: "'txt option \<Rightarrow> 'txt FileSystem" where
  "fileSystemWith txt =
     \<lparr>dataDirExists = True, dataFile = txt, backupDir = None, faults = [], console = []\<rparr>"

text \<open>
  The files of the backup directory, and the names among them that the pruning looks at,
  in sort order. \<open>lastN n xs\<close> is the last \<open>n\<close> elements of \<open>xs\<close>: of a sorted list,
  the \<open>n\<close> greatest.
\<close>

definition backupFiles :: "'txt FileSystem \<Rightarrow> (string \<times> 'txt) list" where
  "backupFiles fs = (case backupDir fs of None \<Rightarrow> [] | Some files \<Rightarrow> files)"

definition backupNames :: "'txt FileSystem \<Rightarrow> string list" where
  "backupNames fs = sort (filter isBackupFile (map fst (backupFiles fs)))"

definition lastN :: "nat \<Rightarrow> 'a list \<Rightarrow> 'a list" where
  "lastN n xs = drop (length xs - n) xs"

text \<open>A directory holds one file under a name.\<close>

definition wf_fs :: "'txt FileSystem \<Rightarrow> bool" where
  "wf_fs fs = distinct (map fst (backupFiles fs))"

text \<open>
  The text of \<open>Date.prototype.toISOString()\<close> for the years 0 to 9999:
  \<open>YYYY-MM-DDTHH:mm:ss.sssZ\<close>.
\<close>

definition matchesPattern :: "char \<Rightarrow> char \<Rightarrow> bool" where
  "matchesPattern t c = (if t = CHR ''d'' then isDigit c else c = t)"

definition isISOTimestamp :: "string \<Rightarrow> bool" where
  "isISOTimestamp s = list_all2 matchesPattern ''dddd-dd-ddTdd:dd:dd.dddZ'' s"


section \<open>Facts about objects and the initialisation guard\<close>

lemma map_of_replace:
  "map_of (map (\<lambda>(k', v'). if k' = k then (k', v) else (k', v')) obj) =
     (if k \<in> fst ` set obj then (map_of obj)(k \<mapsto> v) else map_of obj)"
  by (induction obj) (auto simp: fun_eq_iff)

lemma map_of_add_property:
  "k \<notin> fst ` set obj \<Longrightarrow> map_of (add_property k v obj) = (map_of obj)(k \<mapsto> v)"
  by (induction obj) (auto simp: fun_eq_iff)

lemma map_of_js_set: "map_of (js_set k v obj) = (map_of obj)(k \<mapsto> v)"
  by (simp add: js_set_def map_of_replace map_of_add_property)

lemma keys_add_property: "fst ` set (add_property k v obj) = insert k (fst ` set obj)"
proof (induction obj)
  case Nil
  show ?case by simp
next
  case (Cons a obj)
  obtain k' v' where a: "a = (k', v')" by (cases a)
  show ?case using Cons.IH by (simp add: a insert_commute)
qed

lemma fst_replace [simp]:
  "fst \<circ> (\<lambda>(k', v'). if k' = k then (k', v) else (k', v')) = fst"
  by (auto simp: fun_eq_iff)

lemma map_fst_replace:
  "map fst (map (\<lambda>(k', v'). if k' = k then (k', v) else (k', v')) obj) = map fst obj"
  by (induction obj) (auto simp: case_prod_beta)

lemma keys_js_set: "fst ` set (js_set k v obj) = insert k (fst ` set obj)"
proof (cases "k \<in> fst ` set obj")
  case True
  have "fst ` set (js_set k v obj) = set (map fst (js_set k v obj))" by simp
  also have "\<dots> = set (map fst obj)"
    using True unfolding js_set_def by (simp only: if_True map_fst_replace)
  finally show ?thesis using True by auto
next
  case False
  then show ?thesis by (simp add: js_set_def keys_add_property)
qed

lemma distinct_add_property:
  "k \<notin> fst ` set obj \<Longrightarrow> distinct (map fst obj) \<Longrightarrow> distinct (map fst (add_property k v obj))"
proof (induction obj)
  case Nil
  then show ?case by simp
next
  case (Cons a obj)
  then show ?case
    using keys_add_property [of k v obj] by (cases a) auto
qed

lemma distinct_js_set:
  "distinct (map fst obj) \<Longrightarrow> distinct (map fst (js_set k v obj))"
  by (cases "k \<in> fst ` set obj") (simp_all add: js_set_def map_fst_replace distinct_add_property)

lemma js_get_js_set_same: "js_get (js_set k v obj) k = Own v"
  by (simp add: js_get_def map_of_js_set)

lemma js_get_js_set_other: "k' \<noteq> k \<Longrightarrow> js_get (js_set k v obj) k' = js_get obj k'"
  by (simp add: js_get_def map_of_js_set)

lemma js_get_Own: "js_get obj k = Own v \<longleftrightarrow> map_of obj k = Some v"
  by (auto simp: js_get_def split: option.splits)

lemma js_get_Undefined:
  "js_get obj k = Undefined \<longleftrightarrow> map_of obj k = None \<and> k \<notin> set ObjectPrototype_keys"
  by (auto simp: js_get_def split: option.splits)


lemma ensureInitialized_idem:
  "initialized s \<Longrightarrow> ensureInitialized sp s = (Inr (), s)"
  by (simp add: ensureInitialized_def)

section \<open>\<open>getPrompt\<close>: a read that counts\<close>






lemma persist_Inl:
  "sp_save sp (prompts s) (storage s) = (Inl e, st) \<Longrightarrow> persist sp r s = (Inl e, s\<lparr>storage := st\<rparr>)"
  by (simp add: persist_def)






section \<open>\<open>createPrompt\<close>\<close>









lemma isUUID_not_inherited: "isUUID u \<Longrightarrow> u \<notin> set ObjectPrototype_keys"
  by (auto simp: isUUID_def ObjectPrototype_keys_def)

lemma isUUID_not_proto: "isUUID u \<Longrightarrow> u \<noteq> ''__proto__''"
  by (auto simp: isUUID_def)




section \<open>\<open>updatePrompt\<close> and \<open>incrementVersion\<close>\<close>


lemma split_nonempty: "split sep s \<noteq> []"
  by (induction s) (auto split: list.splits)
















text \<open>The record \<open>updatePrompt\<close> builds from the existing one.\<close>

lemma updatePrompt_present:
  assumes "initialized s" "map_of (prompts s) k = Some p"
  shows "\<exists>q. updatePrompt sp now k request s
                = persist sp (Some q) (s\<lparr>prompts := js_set k q (prompts s)\<rparr>)
           \<and> id' q = id' p
           \<and> title q = (case upd_title request of None \<Rightarrow> title p | Some t \<Rightarrow> t)
           \<and> content q = (case upd_content request of None \<Rightarrow> content p | Some c \<Rightarrow> c)
           \<and> description q
               = (case upd_description request of None \<Rightarrow> description p | Some d \<Rightarrow> Some d)
           \<and> tags q = (case upd_tags request of None \<Rightarrow> tags p | Some ts \<Rightarrow> new_Set ts)
           \<and> category q = (case upd_category request of None \<Rightarrow> category p | Some c \<Rightarrow> c)
           \<and> variables q
               = (case upd_variables request of None \<Rightarrow> variables p | Some vs \<Rightarrow> Some vs)
           \<and> metadata q = (metadata p)\<lparr>updatedAt := now,
                                version := incrementVersion (version (metadata p))\<rparr>"
proof -
  define q where "q =
    p\<lparr>title := (case upd_title request of None \<Rightarrow> title p | Some t \<Rightarrow> t),
      content := (case upd_content request of None \<Rightarrow> content p | Some c \<Rightarrow> c),
      description :=
        (case upd_description request of None \<Rightarrow> description p | Some d \<Rightarrow> Some d),
      tags := (case upd_tags request of None \<Rightarrow> tags p | Some ts \<Rightarrow> new_Set ts),
      category := (case upd_category request of None \<Rightarrow> category p | Some c \<Rightarrow> c),
      variables :=
        (case upd_variables request of None \<Rightarrow> variables p | Some vs \<Rightarrow> Some vs),
      metadata := (metadata p)\<lparr>updatedAt := now,
                     version := incrementVersion (version (metadata p))\<rparr>\<rparr>"
  have "js_get (prompts s) k = Own p" using assms by (simp add: js_get_Own)
  then have "updatePrompt sp now k request s
                = persist sp (Some q) (s\<lparr>prompts := js_set k q (prompts s)\<rparr>)"
    using assms(1) by (simp add: updatePrompt_def ensureInitialized_idem Let_def q_def)
  moreover have "id' q = id' p"
    "title q = (case upd_title request of None \<Rightarrow> title p | Some t \<Rightarrow> t)"
    "content q = (case upd_content request of None \<Rightarrow> content p | Some c \<Rightarrow> c)"
    "description q
       = (case upd_description request of None \<Rightarrow> description p | Some d \<Rightarrow> Some d)"
    "tags q = (case upd_tags request of None \<Rightarrow> tags p | Some ts \<Rightarrow> new_Set ts)"
    "category q = (case upd_category request of None \<Rightarrow> category p | Some c \<Rightarrow> c)"
    "variables q
       = (case upd_variables request of None \<Rightarrow> variables p | Some vs \<Rightarrow> Some vs)"
    "metadata q = (metadata p)\<lparr>updatedAt := now,
                     version := incrementVersion (version (metadata p))\<rparr>"
    by (simp_all add: q_def)
  ultimately show ?thesis by blast
qed





section \<open>A description, once set, stays\<close>

lemma persist_state:
  "persist sp r s = (x, t) \<Longrightarrow> prompts t = prompts s \<and> initialized t = initialized s"
  by (auto simp: persist_def split: prod.splits sum.splits)

lemma updatePrompt_keeps_description:
  assumes "initialized s" "map_of (prompts s) k = Some p" "description p = Some d"
    and "updatePrompt sp now k' request s = (r, t)"
  shows "initialized t
         \<and> (\<exists>q. map_of (prompts t) k = Some q
                \<and> description q
                    = (if k' = k
                       then (case upd_description request of None \<Rightarrow> Some d | Some d' \<Rightarrow> Some d')
                       else Some d)
                \<and> (k' = k \<longrightarrow> (\<forall>x. r = Inr x \<longrightarrow> x = Some q)))"
proof (cases "js_get (prompts s) k'")
  case Undefined
  then have "t = s" using assms(1,4) by (simp add: updatePrompt_def ensureInitialized_idem)
  moreover have "k' \<noteq> k" using Undefined assms(2) by (auto simp: js_get_Undefined)
  ultimately show ?thesis using assms(1,2,3) by simp
next
  case Inherited
  then have "t = s" using assms(1,4) by (simp add: updatePrompt_def ensureInitialized_idem)
  moreover have "k' \<noteq> k" using Inherited assms(2) by (auto simp: js_get_def)
  ultimately show ?thesis using assms(1,2,3) by simp
next
  case (Own p')
  then have p': "map_of (prompts s) k' = Some p'" by (simp add: js_get_Own)
  from updatePrompt_present [OF assms(1) p', of sp now request] obtain q where
    run: "updatePrompt sp now k' request s
            = persist sp (Some q) (s\<lparr>prompts := js_set k' q (prompts s)\<rparr>)"
    and dq: "description q
         = (case upd_description request of None \<Rightarrow> description p' | Some d \<Rightarrow> Some d)"
    by blast
  from run assms(4) have ps: "persist sp (Some q) (s\<lparr>prompts := js_set k' q (prompts s)\<rparr>) = (r, t)"
    by simp
  from persist_state [OF ps] have st: "prompts t = js_set k' q (prompts s)" "initialized t"
    using assms(1) by simp_all
  have res: "\<forall>x. r = Inr x \<longrightarrow> x = Some q"
    using ps by (auto simp: persist_def split: prod.splits sum.splits)
  show ?thesis
  proof (cases "k' = k")
    case True
    then have "p' = p" using p' assms(2) by simp
    then show ?thesis using True st dq res assms(3)
      by (simp add: map_of_js_set split: option.splits)
  next
    case False
    then show ?thesis using st assms(2,3) by (simp add: map_of_js_set)
  qed
qed

lemma updates_keep_description:
  assumes "initialized s" "map_of (prompts s) k = Some p" "description p = Some d"
    and "sequentially (map (\<lambda>(now, k', request). updatePrompt sp now k' request) ops) s = (r, t)"
  shows "\<exists>q d'. map_of (prompts t) k = Some q \<and> description q = Some d'"
  using assms
proof (induction ops arbitrary: s p d r t)
  case Nil
  then show ?case by auto
next
  case (Cons op ops)
  obtain now k' request where op: "op = (now, k', request)" by (cases op) auto
  obtain r1 s1 where first: "updatePrompt sp now k' request s = (r1, s1)"
    by (cases "updatePrompt sp now k' request s") auto
  from updatePrompt_keeps_description [OF Cons.prems(1,2,3) first] obtain q d1 where
    s1: "initialized s1" "map_of (prompts s1) k = Some q" "description q = Some d1"
    by (auto split: if_splits option.splits)
  show ?case
  proof (cases r1)
    case (Inl e)
    then have "t = s1" using Cons.prems(4) op first by simp
    then show ?thesis using s1 by blast
  next
    case (Inr x)
    obtain r2 where rest:
      "sequentially (map (\<lambda>(now, k', request). updatePrompt sp now k' request) ops) s1 = (r2, t)"
      using Cons.prems(4) op first Inr
      by (cases "sequentially (map (\<lambda>(now, k', request). updatePrompt sp now k' request) ops) s1")
         (auto split: sum.splits)
    from Cons.IH [OF s1 rest] show ?thesis .
  qed
qed

text \<open>
  Claim C10. Let the record under \<open>k\<close> have a description \<open>d\<close>. An update of \<open>k\<close> whose
  request has no description leaves \<open>d\<close> in place, in the mapping and in the record
  returned, whether or not the save that follows succeeds. After any sequence of updates,
  of any ids and with any requests, run until its end or until one of them throws, the
  record under \<open>k\<close> still has a description: the request type has no value that would
  remove the field (an empty text overwrites it with the empty text).
\<close>

theorem updatePrompt_description_never_removed:
  assumes "initialized s" "map_of (prompts s) k = Some p" "description p = Some d"
  shows "(\<forall>now request r t.
            upd_description request = None \<and> updatePrompt sp now k request s = (r, t) \<longrightarrow>
            (\<exists>q. map_of (prompts t) k = Some q \<and> description q = Some d
                 \<and> (\<forall>x. r = Inr x \<longrightarrow> x = Some q)))
       \<and> (\<forall>ops r t.
            sequentially (map (\<lambda>(now, k', request). updatePrompt sp now k' request) ops) s = (r, t)
            \<longrightarrow> (\<exists>q d'. map_of (prompts t) k = Some q \<and> description q = Some d'))"
proof -
  have one: "\<exists>q. map_of (prompts t) k = Some q \<and> description q = Some d
                 \<and> (\<forall>x. r = Inr x \<longrightarrow> x = Some q)"
    if "upd_description request = None" "updatePrompt sp now k request s = (r, t)"
    for now request r t
    using updatePrompt_keeps_description [OF assms that(2)] that(1) by auto
  have many: "\<exists>q d'. map_of (prompts t) k = Some q \<and> description q = Some d'"
    if "sequentially (map (\<lambda>(now, k', request). updatePrompt sp now k' request) ops) s = (r, t)"
    for ops r t
    using updates_keep_description [OF assms that] .
  show ?thesis
  proof (intro conjI allI impI)
    fix now request r t
    assume h: "upd_description request = None \<and> updatePrompt sp now k request s = (r, t)"
    show "\<exists>q. map_of (prompts t) k = Some q \<and> description q = Some d
                 \<and> (\<forall>x. r = Inr x \<longrightarrow> x = Some q)"
      by (rule one [OF conjunct1 [OF h] conjunct2 [OF h]])
  next
    fix ops r t
    assume "sequentially (map (\<lambda>(now, k', request). updatePrompt sp now k' request) ops) s
              = (r, t)"
    then show "\<exists>q d'. map_of (prompts t) k = Some q \<and> description q = Some d'"
      by (rule many)
  qed
qed

text \<open>The record \<open>p1\<close> of the fixture, whose description is \<open>First\<close>.\<close>

theorem updatePrompt_description_never_removed_witness:
  "initialized versionedService
   \<and> (\<exists>p. map_of (prompts versionedService) ''p1'' = Some p \<and> description p = Some ''First'')
   \<and> upd_description testUpdateRequest = None
   \<and> (\<exists>q. map_of (prompts (snd (updatePrompt MockStorageProvider ''2024-05-01T10:00:00.000Z''
                  ''p1'' testUpdateRequest versionedService))) ''p1'' = Some q
          \<and> description q = Some ''First'')
   \<and> (\<exists>q d'. map_of (prompts (snd (sequentially
                  (map (\<lambda>(now, k', request). updatePrompt MockStorageProvider now k' request)
                     [(''2024-05-01T10:00:00.000Z'', ''p1'', testUpdateRequest),
                      (''2024-05-02T10:00:00.000Z'', ''p2'', testUpdateRequest),
                      (''2024-05-03T10:00:00.000Z'', ''p1'',
                         testUpdateRequest\<lparr>upd_description := Some ''Second''\<rparr>)])
                  versionedService))) ''p1'' = Some q
          \<and> description q = Some d')"
proof -
  have i: "initialized versionedService" by (simp add: versionedService_def)
  have p: "map_of (prompts versionedService) ''p1''
      = Some (testPrompt\<lparr>id' := ''p1'', description := Some ''First'',
                    metadata := (metadata testPrompt)\<lparr>version := ''1.0.2''\<rparr>\<rparr>)"
    by (simp add: versionedService_def)
  have d: "description (testPrompt\<lparr>id' := ''p1'', description := Some ''First'',
                    metadata := (metadata testPrompt)\<lparr>version := ''1.0.2''\<rparr>\<rparr>) = Some ''First''"
    by simp
  have u: "upd_description testUpdateRequest = None" by (simp add: testUpdateRequest_def)
  note main = updatePrompt_description_never_removed [OF i p d, of MockStorageProvider]
  have a: "\<exists>q. map_of (prompts (snd (updatePrompt MockStorageProvider ''2024-05-01T10:00:00.000Z''
                  ''p1'' testUpdateRequest versionedService))) ''p1'' = Some q
          \<and> description q = Some ''First''"
  proof -
    obtain r t where rt: "updatePrompt MockStorageProvider ''2024-05-01T10:00:00.000Z''
                  ''p1'' testUpdateRequest versionedService = (r, t)"
      by (cases "updatePrompt MockStorageProvider ''2024-05-01T10:00:00.000Z''
                  ''p1'' testUpdateRequest versionedService") auto
    from conjunct1 [OF main, rule_format, OF conjI, OF u rt] show ?thesis
      unfolding rt by auto
  qed
  have b: "\<exists>q d'. map_of (prompts (snd (sequentially
                  (map (\<lambda>(now, k', request). updatePrompt MockStorageProvider now k' request)
                     [(''2024-05-01T10:00:00.000Z'', ''p1'', testUpdateRequest),
                      (''2024-05-02T10:00:00.000Z'', ''p2'', testUpdateRequest),
                      (''2024-05-03T10:00:00.000Z'', ''p1'',
                         testUpdateRequest\<lparr>upd_description := Some ''Second''\<rparr>)])
                  versionedService))) ''p1'' = Some q
          \<and> description q = Some d'"
  proof -
    let ?run = "sequentially
                  (map (\<lambda>(now, k', request). updatePrompt MockStorageProvider now k' request)
                     [(''2024-05-01T10:00:00.000Z'', ''p1'', testUpdateRequest),
                      (''2024-05-02T10:00:00.000Z'', ''p2'', testUpdateRequest),
                      (''2024-05-03T10:00:00.000Z'', ''p1'',
                         testUpdateRequest\<lparr>upd_description := Some ''Second''\<rparr>)])
                  versionedService"
    obtain r t where rt: "?run = (r, t)" by (cases ?run) auto
    from conjunct2 [OF main, rule_format, OF rt] show ?thesis
      unfolding rt by simp
  qed
  show ?thesis
    apply (intro conjI)
    subgoal by (rule i)
    subgoal using p d by blast
    subgoal by (rule u)
    subgoal by (rule a)
    subgoal by (rule b)
    done
qed

section \<open>\<open>listPrompts\<close>: filter, sort, paginate\<close>







lemma includes_str_empty [simp]: "includes_str s []"
  by (simp add: includes_str_def)

lemma includes_str_in_empty: "includes_str [] q = (q = [])"
  by (simp add: includes_str_def)

lemma toLowerCase_Nil [simp]: "toLowerCase s = [] \<longleftrightarrow> s = []"
  by (simp add: toLowerCase_def)












section \<open>\<open>searchPrompts\<close>: matching and ranking\<close>














section \<open>\<open>load\<close>: each record is checked on its own\<close>

lemma isValidPrompt_spec: "isValidPrompt v = wellFormedRecord v"
proof (cases v)
  case (JObj kvs)
  have str: "typeof (property_of (JObj kvs) name) = ''string'' \<longleftrightarrow> hasString kvs name" for name
    by (auto simp: property_of_def typeof_def hasString_def split: option.splits jsval.splits)
  have arr: "Array_isArray (property_of (JObj kvs) ''tags'')
               \<longleftrightarrow> (\<exists>xs. map_of kvs ''tags'' = Some (JArr xs))"
    by (auto simp: property_of_def Array_isArray_def split: option.splits jsval.splits)
  have obj: "typeof (property_of (JObj kvs) ''metadata'') = ''object''
               \<and> property_of (JObj kvs) ''metadata'' \<noteq> JNull
             \<longleftrightarrow> (\<exists>m. map_of kvs ''metadata'' = Some m \<and> ((\<exists>f. m = JObj f) \<or> (\<exists>xs. m = JArr xs)))"
    by (auto simp: property_of_def typeof_def split: option.splits jsval.splits)
  have "isValidPrompt (JObj kvs)
          = (hasString kvs ''id'' \<and> hasString kvs ''title'' \<and> hasString kvs ''content''
             \<and> (\<exists>xs. map_of kvs ''tags'' = Some (JArr xs)) \<and> hasString kvs ''category''
             \<and> (\<exists>m. map_of kvs ''metadata'' = Some m
                    \<and> ((\<exists>f. m = JObj f) \<or> (\<exists>xs. m = JArr xs))))"
    unfolding isValidPrompt_def str arr using obj
    by (simp add: js_truthy_def typeof_def)
  then show ?thesis using JObj by (simp add: wellFormedRecord_def)
qed (simp_all add: isValidPrompt_def wellFormedRecord_def js_truthy_def typeof_def
       property_of_def Array_isArray_def)


text \<open>The loop of \<open>validateAndTransformData\<close>.\<close>

lemma validate_fold_result:
  "distinct (map fst es) \<Longrightarrow>
     map_of (fst (fold (\<lambda>(key, v) (result, warnings).
                   if isValidPrompt v then (js_set key v result, warnings)
                   else (result, warnings @ [invalid_warning key])) es (acc, w)))
       = map_of acc ++ map_of (filter (\<lambda>(k, v). isValidPrompt v) es)"
proof (induction es arbitrary: acc w)
  case Nil
  show ?case by simp
next
  case (Cons e es)
  obtain k v where e: "e = (k, v)" by (cases e)
  have d: "distinct (map fst es)" and k: "k \<notin> fst ` set es" using Cons.prems e by auto
  show ?case
  proof (cases "isValidPrompt v")
    case True
    have nd: "k \<notin> dom (map_of (filter (\<lambda>(k, v). isValidPrompt v) es))"
      using k by (auto simp: dom_map_of_conv_image_fst)
    let ?step = "\<lambda>(key, v) (result, warnings).
                   if isValidPrompt v then (js_set key v result, warnings)
                   else (result, warnings @ [invalid_warning key])"
    have step: "fold ?step (e # es) (acc, w) = fold ?step es (js_set k v acc, w)"
      using True e by simp
    have "map_of (fst (fold ?step (e # es) (acc, w)))
            = map_of (js_set k v acc) ++ map_of (filter (\<lambda>(k, v). isValidPrompt v) es)"
      unfolding step by (rule Cons.IH [OF d])
    also have "\<dots> = (map_of acc)(k \<mapsto> v) ++ map_of (filter (\<lambda>(k, v). isValidPrompt v) es)"
      by (simp only: map_of_js_set)
    also have "\<dots> = (map_of acc ++ map_of (filter (\<lambda>(k, v). isValidPrompt v) es))(k \<mapsto> v)"
      using nd by (rule map_add_upd_left)
    also have "\<dots> = map_of acc ++ map_of (filter (\<lambda>(k, v). isValidPrompt v) (e # es))"
      using True e by simp
    finally show ?thesis .
  next
    case False
    then show ?thesis using e Cons.IH [OF d, of acc "w @ [invalid_warning k]"] by simp
  qed
qed

lemma validate_fold_warnings:
  "snd (fold (\<lambda>(key, v) (result, warnings).
                   if isValidPrompt v then (js_set key v result, warnings)
                   else (result, warnings @ [invalid_warning key])) es (acc, w))
     = w @ map invalid_warning (map fst (filter (\<lambda>(k, v). \<not> isValidPrompt v) es))"
proof (induction es arbitrary: acc w)
  case Nil
  show ?case by simp
next
  case (Cons e es)
  obtain k v where e: "e = (k, v)" by (cases e)
  show ?case using e Cons.IH [of "js_set k v acc" w] Cons.IH [of acc "w @ [invalid_warning k]"]
    by (cases "isValidPrompt v") simp_all
qed

lemma validate_fold_keys:
  "distinct (map fst acc) \<Longrightarrow>
     distinct (map fst (fst (fold (\<lambda>(key, v) (result, warnings).
                   if isValidPrompt v then (js_set key v result, warnings)
                   else (result, warnings @ [invalid_warning key])) es (acc, w))))
     \<and> fst ` set (fst (fold (\<lambda>(key, v) (result, warnings).
                   if isValidPrompt v then (js_set key v result, warnings)
                   else (result, warnings @ [invalid_warning key])) es (acc, w)))
         \<subseteq> fst ` set acc \<union> fst ` set es"
proof (induction es arbitrary: acc w)
  case Nil
  then show ?case by simp
next
  case (Cons e es)
  obtain k v where e: "e = (k, v)" by (cases e)
  show ?case
  proof (cases "isValidPrompt v")
    case True
    have "distinct (map fst (js_set k v acc))" using Cons.prems by (rule distinct_js_set)
    from Cons.IH [OF this, of w] show ?thesis using True e by (auto simp: keys_js_set)
  next
    case False
    from Cons.IH [OF Cons.prems, of "w @ [invalid_warning k]"] show ?thesis
      using False e by auto
  qed
qed

lemma map_of_filter_distinct:
  "distinct (map fst es) \<Longrightarrow>
     map_of (filter (\<lambda>(k, v). P v) es) k = Some v \<longleftrightarrow> map_of es k = Some v \<and> P v"
  by (induction es) (auto simp: image_iff dest: map_of_SomeD)

lemma validateAndTransformData_object:
  assumes "wf_obj (Object_entries data)"
  shows "wf_obj (fst (validateAndTransformData data))
       \<and> (\<forall>k v. map_of (fst (validateAndTransformData data)) k = Some v
              \<longleftrightarrow> map_of (Object_entries data) k = Some v \<and> wellFormedRecord v)
       \<and> snd (validateAndTransformData data)
           = map invalid_warning
               (map fst (filter (\<lambda>(k, v). \<not> wellFormedRecord v) (Object_entries data)))"
proof (cases "\<not> js_truthy data \<or> typeof data \<noteq> ''object''")
  case True
  then have "Object_entries data = []"
    by (cases data) (auto simp: Object_entries_def js_truthy_def typeof_def)
  then show ?thesis using True by (simp add: validateAndTransformData_def wf_obj_def)
next
  case False
  let ?step = "\<lambda>(key, v) (result, warnings).
                   if isValidPrompt v then (js_set key v result, warnings)
                   else (result, warnings @ [invalid_warning key])"
  let ?es = "Object_entries data"
  have v: "validateAndTransformData data = fold ?step ?es ([], [])"
    using False by (simp add: validateAndTransformData_def)
  have d: "distinct (map fst ?es)" and np: "''__proto__'' \<notin> fst ` set ?es"
    using assms by (simp_all add: wf_obj_def)
  have m: "map_of (fst (fold ?step ?es ([], []))) = map_of (filter (\<lambda>(k, v). isValidPrompt v) ?es)"
    using validate_fold_result [OF d, of "[]" "[]"] by simp
  have k: "distinct (map fst (fst (fold ?step ?es ([], []))))"
    "fst ` set (fst (fold ?step ?es ([], []))) \<subseteq> fst ` set ?es"
    using validate_fold_keys [of "[]" ?es "[]"] by simp_all
  have 1: "wf_obj (fst (validateAndTransformData data))"
    unfolding v wf_obj_def using k np by blast
  have 2: "\<forall>k v. map_of (fst (validateAndTransformData data)) k = Some v
              \<longleftrightarrow> map_of ?es k = Some v \<and> wellFormedRecord v"
    unfolding v m using map_of_filter_distinct [OF d, of isValidPrompt]
    unfolding isValidPrompt_spec [abs_def] by blast
  have 3: "snd (validateAndTransformData data)
           = map invalid_warning (map fst (filter (\<lambda>(k, v). \<not> wellFormedRecord v) ?es))"
    unfolding v validate_fold_warnings by (simp add: isValidPrompt_spec)
  show ?thesis using 1 2 3 by blast
qed


lemma load_existing_file:
  assumes "dataDirExists fs" "dataFile fs = Some txt" "ReadFile \<notin> set (faults fs)"
  shows "load yaml now fs
           = (case parse yaml txt of
                Inl e \<Rightarrow> (Inl (Error (''Failed to load prompts: '' @ message e)),
                           fs\<lparr>console := console fs @ [ConsoleError ''Error loading prompts:'' e]\<rparr>)
              | Inr doc \<Rightarrow>
                  (Inr (fst (validateAndTransformData (if js_truthy doc then doc else JObj []))),
                   fs\<lparr>console := console fs
                        @ snd (validateAndTransformData (if js_truthy doc then doc else JObj []))\<rparr>))"
  using assms
  by (auto simp: load_def try_catch_def and_then_def ensureDirectoryExists_def path_exists_def
      fileExists_def readFile_def log_and_rethrow_def console_log_def Let_def
      split: sum.splits prod.splits)




section \<open>What \<open>backup\<close> and \<open>save\<close> do to the file system\<close>

lemma mkdir_faults: "faults (snd (mkdir p fs)) = faults fs"
  by (simp add: mkdir_def split: path.splits)

lemma ensureDirectoryExists_faults: "faults (snd (ensureDirectoryExists d fs)) = faults fs"
  by (simp add: ensureDirectoryExists_def Let_def mkdir_faults)

lemma copyFile_faults: "faults (snd (copyFile name fs)) = faults fs"
  by (simp add: copyFile_def split: option.splits)

lemma unlink_faults: "faults (snd (unlink name fs)) = faults fs"
  by (simp add: unlink_def split: option.splits)

lemma unlink_each_faults: "faults (snd (unlink_each names fs)) = faults fs"
proof (induction names arbitrary: fs)
  case Nil
  show ?case by simp
next
  case (Cons n names)
  show ?case using Cons.IH [of "snd (unlink n fs)"] unlink_faults [of n fs]
    by (cases "unlink n fs") (auto split: sum.splits)
qed

lemma cleanupOldBackups_faults: "faults (snd (cleanupOldBackups fs)) = faults fs"
proof -
  have "faults (snd (unlink_each names fs)) = faults fs" for names
    by (rule unlink_each_faults)
  then show ?thesis
    by (auto simp: cleanupOldBackups_def try_catch_def and_then_def readdir_def return_def
        console_log_def Let_def split: option.splits prod.splits sum.splits)
       (metis snd_conv)+
qed

lemma cleanupOldBackups_returns: "fst (cleanupOldBackups fs) = Inr ()"
  by (auto simp: cleanupOldBackups_def try_catch_def split: prod.splits sum.splits)

lemma backup_faults: "faults (snd (backup now fs)) = faults fs"
proof -
  obtain r1 fs1 where e: "ensureDirectoryExists (Some BackupPath) fs = (r1, fs1)"
    by (cases "ensureDirectoryExists (Some BackupPath) fs")
  have f1: "faults fs1 = faults fs" using ensureDirectoryExists_faults [of "Some BackupPath" fs] e by simp
  obtain r2 fs2 where c: "copyFile (backupFileName now) fs1 = (r2, fs2)"
    by (cases "copyFile (backupFileName now) fs1")
  have f2: "faults fs2 = faults fs" using copyFile_faults [of "backupFileName now" fs1] c f1 by simp
  obtain r3 fs3 where k: "cleanupOldBackups fs2 = (r3, fs3)" by (cases "cleanupOldBackups fs2")
  have f3: "faults fs3 = faults fs" using cleanupOldBackups_faults [of fs2] k f2 by simp
  show ?thesis
    using e c k f1 f2 f3
    by (auto simp: backup_def try_catch_def and_then_def return_def log_and_rethrow_def
        console_log_def split: sum.splits)
qed


lemma map_fst_put_file:
  "map fst (put_file name txt files)
     = (if name \<in> fst ` set files then map fst files else map fst files @ [name])"
proof -
  have "map fst (map (\<lambda>(n, t). if n = name then (n, txt) else (n, t)) files) = map fst files"
    by (induction files) (auto simp: case_prod_beta)
  then show ?thesis by (simp add: put_file_def)
qed

lemma distinct_put_file:
  "distinct (map fst files) \<Longrightarrow> distinct (map fst (put_file name txt files))"
  by (simp add: map_fst_put_file)

lemma isBackupFile_backupFileName: "isBackupFile (backupFileName now)"
  by (simp add: isBackupFile_def backupFileName_def startsWith_def endsWith_def suffix_def)

text \<open>Deleting, one after the other, files that are all there and may all be deleted.\<close>

lemma unlink_each_ok:
  assumes "\<forall>n\<in>set names. Unlink n \<notin> set (faults fs)"
    and "backupDir fs = Some files" "set names \<subseteq> fst ` set files" "distinct names"
  shows "unlink_each names fs
           = (Inr (), fs\<lparr>backupDir := Some (filter (\<lambda>(n, t). n \<notin> set names) files)\<rparr>)"
  using assms
proof (induction names arbitrary: fs files)
  case Nil
  then show ?case by simp
next
  case (Cons n names)
  let ?fs1 = "fs\<lparr>backupDir := Some (filter (\<lambda>(m, t). m \<noteq> n) files)\<rparr>"
  have u: "unlink n fs = (Inr (), ?fs1)"
    using Cons.prems by (auto simp: unlink_def)
  have 1: "\<forall>m\<in>set names. Unlink m \<notin> set (faults ?fs1)" using Cons.prems(1) by simp
  have 2: "backupDir ?fs1 = Some (filter (\<lambda>(m, t). m \<noteq> n) files)" by simp
  have 3: "set names \<subseteq> fst ` set (filter (\<lambda>(m, t). m \<noteq> n) files)"
    using Cons.prems(3,4) by force
  have 4: "distinct names" using Cons.prems(4) by simp
  have "filter (\<lambda>(m, t). m \<notin> set names) (filter (\<lambda>(m, t). m \<noteq> n) files)
          = filter (\<lambda>(m, t). m \<notin> set (n # names)) files"
    by (induction files) auto
  then show ?case using u Cons.IH [OF 1 2 3 4] by simp
qed

lemma cleanupOldBackups_ok:
  assumes "Readdir \<notin> set (faults fs)" "\<forall>n. Unlink n \<notin> set (faults fs)"
    and "backupDir fs = Some files" "distinct (map fst files)"
  shows "cleanupOldBackups fs
           = (Inr (), fs\<lparr>backupDir := Some (filter (\<lambda>(n, t). n \<notin> set (drop 10
                  (rev (sort (filter isBackupFile (map fst files)))))) files)\<rparr>)"
proof -
  let ?bf = "rev (sort (filter isBackupFile (map fst files)))"
  have rd: "readdir fs = (Inr (map fst files), fs)" using assms(1,3) by (simp add: readdir_def)
  show ?thesis
  proof (cases "length ?bf > 10")
    case True
    have sub: "set (drop 10 ?bf) \<subseteq> fst ` set files"
      using set_drop_subset [of 10 ?bf] by auto
    have dis: "distinct (drop 10 ?bf)" using assms(4) by (simp add: distinct_map_filter)
    have "unlink_each (drop 10 ?bf) fs
           = (Inr (), fs\<lparr>backupDir := Some (filter (\<lambda>(n, t). n \<notin> set (drop 10 ?bf)) files)\<rparr>)"
      using unlink_each_ok [OF _ assms(3) sub dis] assms(2) by blast
    then show ?thesis using True rd
      by (simp add: cleanupOldBackups_def try_catch_def and_then_def Let_def)
  next
    case False
    then have "drop 10 ?bf = []" by simp
    then have "filter (\<lambda>(n, t). n \<notin> set (drop 10 ?bf)) files = files" by simp
    moreover have "fs\<lparr>backupDir := Some files\<rparr> = fs" using assms(3) by simp
    ultimately show ?thesis using False rd
      by (simp add: cleanupOldBackups_def try_catch_def and_then_def Let_def return_def)
  qed
qed


lemma filter_notin_take:
  "distinct xs \<Longrightarrow> filter (\<lambda>x. x \<notin> set (take k xs)) xs = drop k xs"
proof (induction xs arbitrary: k)
  case Nil
  show ?case by simp
next
  case (Cons x xs)
  show ?case
  proof (cases k)
    case 0
    then show ?thesis by simp
  next
    case (Suc j)
    have "filter (\<lambda>y. y \<noteq> x \<and> y \<notin> set (take j xs)) xs = filter (\<lambda>y. y \<notin> set (take j xs)) xs"
      using Cons.prems by (auto intro: filter_cong)
    then show ?thesis using Suc Cons.IH [of j] Cons.prems by simp
  qed
qed

lemma map_fst_filter_names:
  "map fst (filter (\<lambda>(n, t). P n) files) = filter P (map fst files)"
  by (induction files) auto

lemma cleanupOldBackups_result: "\<exists>fs'. cleanupOldBackups fs = (Inr (), fs')"
  using cleanupOldBackups_returns [of fs] by (cases "cleanupOldBackups fs") auto

lemma pruned_names:
  assumes "distinct (map fst files)"
  shows "sort (filter isBackupFile (map fst (filter (\<lambda>(n, t). n \<notin> set (drop 10
            (rev (sort (filter isBackupFile (map fst files)))))) files)))
         = lastN 10 (sort (filter isBackupFile (map fst files)))"
proof -
  let ?S = "sort (filter isBackupFile (map fst files))"
  let ?D = "set (drop 10 (rev ?S))"
  have dS: "distinct ?S" using assms by (simp add: distinct_map_filter)
  have D: "?D = set (take (length ?S - 10) ?S)" by (simp add: drop_rev)
  have 1: "map fst (filter (\<lambda>(n, t). n \<notin> ?D) files) = filter (\<lambda>n. n \<notin> ?D) (map fst files)"
    by (rule map_fst_filter_names)
  have "sort (filter isBackupFile (map fst (filter (\<lambda>(n, t). n \<notin> ?D) files)))
          = sort (filter (\<lambda>n. n \<notin> ?D) (filter isBackupFile (map fst files)))"
    unfolding 1 by (simp add: conj_commute)
  also have "\<dots> = filter (\<lambda>n. n \<notin> ?D) ?S" by (simp add: filter_sort)
  also have "\<dots> = drop (length ?S - 10) ?S" unfolding D using dS by (rule filter_notin_take)
  finally show ?thesis by (simp add: lastN_def)
qed

text \<open>What \<open>backup\<close> does when there is a data file and the copy can be made.\<close>

lemma backup_existing:
  assumes "dataFile fs = Some txt" "CopyFile \<notin> set (faults fs)"
    and "backupDir fs = None \<longrightarrow> Mkdir \<notin> set (faults fs)"
  shows "backup now fs
           = cleanupOldBackups
               (fs\<lparr>dataDirExists := dataDirExists fs \<or> backupDir fs = None,
                   backupDir := Some (put_file (backupFileName now) txt (backupFiles fs))\<rparr>)"
proof (cases "backupDir fs")
  case None
  then have e: "ensureDirectoryExists (Some BackupPath) fs
                  = (Inr (), fs\<lparr>dataDirExists := True, backupDir := Some []\<rparr>)"
    using assms(3) by (simp add: ensureDirectoryExists_def path_exists_def mkdir_def)
  have c: "copyFile (backupFileName now) (fs\<lparr>dataDirExists := True, backupDir := Some []\<rparr>)
             = (Inr (), fs\<lparr>dataDirExists := True,
                           backupDir := Some (put_file (backupFileName now) txt [])\<rparr>)"
    using assms(1,2) by (simp add: copyFile_def)
  obtain fs' where k: "cleanupOldBackups (fs\<lparr>dataDirExists := True,
                           backupDir := Some (put_file (backupFileName now) txt [])\<rparr>) = (Inr (), fs')"
    using cleanupOldBackups_result by blast
  show ?thesis
    using None e c k assms(1)
    by (simp add: backup_def try_catch_def and_then_def fileExists_def path_exists_def
          backupFiles_def)
next
  case (Some files)
  then have e: "ensureDirectoryExists (Some BackupPath) fs = (Inr (), fs)"
    by (simp add: ensureDirectoryExists_def path_exists_def)
  have c: "copyFile (backupFileName now) fs
             = (Inr (), fs\<lparr>backupDir := Some (put_file (backupFileName now) txt files)\<rparr>)"
    using assms(1,2) Some by (simp add: copyFile_def)
  have same: "fs\<lparr>dataDirExists := dataDirExists fs \<or> backupDir fs = None,
                   backupDir := Some (put_file (backupFileName now) txt (backupFiles fs))\<rparr>
              = fs\<lparr>backupDir := Some (put_file (backupFileName now) txt files)\<rparr>"
    using Some by (simp add: backupFiles_def)
  obtain fs' where k: "cleanupOldBackups
        (fs\<lparr>backupDir := Some (put_file (backupFileName now) txt files)\<rparr>) = (Inr (), fs')"
    using cleanupOldBackups_result by blast
  show ?thesis
    unfolding same
    using e c k assms(1)
    by (simp add: backup_def try_catch_def and_then_def fileExists_def path_exists_def)
qed


lemma filter_other_replace:
  "isBackupFile name \<Longrightarrow>
     filter (\<lambda>(n, t). \<not> isBackupFile n) (map (\<lambda>(n, t). if n = name then (n, txt) else (n, t)) files)
       = filter (\<lambda>(n, t). \<not> isBackupFile n) files"
  by (induction files) (auto split: if_splits)

lemma filter_other_put_file:
  "isBackupFile name \<Longrightarrow>
     filter (\<lambda>(n, t). \<not> isBackupFile n) (put_file name txt files)
       = filter (\<lambda>(n, t). \<not> isBackupFile n) files"
  by (simp add: put_file_def filter_other_replace)

lemma filter_other_pruned:
  assumes "\<forall>n\<in>D. isBackupFile n"
  shows "filter (\<lambda>(n, t). \<not> isBackupFile n) (filter (\<lambda>(n, t). n \<notin> D) files)
           = filter (\<lambda>(n, t). \<not> isBackupFile n) files"
  using assms by (induction files) auto

lemma backup_pruned:
  assumes "dataFile fs = Some txt" "CopyFile \<notin> set (faults fs)"
    and "backupDir fs = None \<longrightarrow> Mkdir \<notin> set (faults fs)"
    and "Readdir \<notin> set (faults fs)" "\<forall>n. Unlink n \<notin> set (faults fs)" "wf_fs fs"
  shows "\<exists>fs'. backup now fs = (Inr (), fs')
           \<and> faults fs' = faults fs \<and> dataFile fs' = dataFile fs \<and> console fs' = console fs
           \<and> dataDirExists fs' = (dataDirExists fs \<or> backupDir fs = None)
           \<and> wf_fs fs'
           \<and> backupNames fs'
               = lastN 10 (sort (filter isBackupFile
                   (map fst (put_file (backupFileName now) txt (backupFiles fs)))))
           \<and> filter (\<lambda>(n, t). \<not> isBackupFile n) (backupFiles fs')
               = filter (\<lambda>(n, t). \<not> isBackupFile n) (backupFiles fs)"
proof -
  define files where "files = put_file (backupFileName now) txt (backupFiles fs)"
  define fs2 where
    "fs2 = fs\<lparr>dataDirExists := dataDirExists fs \<or> backupDir fs = None, backupDir := Some files\<rparr>"
  define D where "D = set (drop 10 (rev (sort (filter isBackupFile (map fst files)))))"
  define fs3 where "fs3 = fs2\<lparr>backupDir := Some (filter (\<lambda>(n, t). n \<notin> D) files)\<rparr>"
  have d: "distinct (map fst files)"
    using assms(6) unfolding files_def wf_fs_def by (rule distinct_put_file)
  have b: "backup now fs = cleanupOldBackups fs2"
    unfolding fs2_def files_def using assms(1,2,3) by (rule backup_existing)
  have f2: "Readdir \<notin> set (faults fs2)" "\<forall>n. Unlink n \<notin> set (faults fs2)"
    "backupDir fs2 = Some files"
    using assms(4,5) by (simp_all add: fs2_def)
  have c: "cleanupOldBackups fs2 = (Inr (), fs3)"
    unfolding fs3_def D_def by (rule cleanupOldBackups_ok [OF f2 d])
  have names: "backupNames fs3 = lastN 10 (sort (filter isBackupFile (map fst files)))"
    using pruned_names [OF d] by (simp add: backupNames_def backupFiles_def fs3_def D_def)
  have wf: "wf_fs fs3" using d by (simp add: wf_fs_def backupFiles_def distinct_map_filter fs3_def)
  have DB: "\<forall>n\<in>D. isBackupFile n"
    using set_drop_subset [of 10 "rev (sort (filter isBackupFile (map fst files)))"]
    unfolding D_def by auto
  have bf3: "backupFiles fs3 = filter (\<lambda>(n, t). n \<notin> D) files"
    by (simp add: backupFiles_def fs3_def)
  have "filter (\<lambda>(n, t). \<not> isBackupFile n) (backupFiles fs3)
          = filter (\<lambda>(n, t). \<not> isBackupFile n) (filter (\<lambda>(n, t). n \<notin> D) files)"
    by (simp only: bf3)
  also have "\<dots> = filter (\<lambda>(n, t). \<not> isBackupFile n) files"
    by (rule filter_other_pruned [OF DB])
  also have "\<dots> = filter (\<lambda>(n, t). \<not> isBackupFile n) (backupFiles fs)"
    unfolding files_def by (rule filter_other_put_file [OF isBackupFile_backupFileName])
  finally have other: "filter (\<lambda>(n, t). \<not> isBackupFile n) (backupFiles fs3)
          = filter (\<lambda>(n, t). \<not> isBackupFile n) (backupFiles fs)" .
  have st: "faults fs3 = faults fs" "dataFile fs3 = dataFile fs" "console fs3 = console fs"
    "dataDirExists fs3 = (dataDirExists fs \<or> backupDir fs = None)"
    by (simp_all add: fs3_def fs2_def)
  have run: "backup now fs = (Inr (), fs3)" using b c by simp
  show ?thesis
    apply (rule exI [of _ fs3])
    using run st wf names other unfolding files_def by (intro conjI) assumption+
qed



lemma writeFile_Inr:
  "writeFile txt fs = (Inr u, fs1) \<Longrightarrow> fs1 = fs\<lparr>dataFile := Some txt\<rparr> \<and> dataDirExists fs"
  by (auto simp: writeFile_def split: if_splits)

lemma save_Inr:
  assumes "save yaml now X fs = (Inr u, fs1)"
  shows "dataFile fs1 = Some (stringify yaml (promptsToJS X)) \<and> dataDirExists fs1
         \<and> faults fs1 = faults fs"
proof -
  obtain ra fsa where a: "ensureDirectoryExists None fs = (ra, fsa)"
    by (cases "ensureDirectoryExists None fs")
  obtain rb fsb where b:
    "(if fileExists DataPath fsa then backup now else return ()) fsa = (rb, fsb)"
    by (cases "(if fileExists DataPath fsa then backup now else return ()) fsa")
  have fa: "faults fsa = faults fs" using ensureDirectoryExists_faults [of None fs] a by simp
  have fb: "faults fsb = faults fsa"
    using b backup_faults [of now fsa] by (cases "fileExists DataPath fsa") (auto simp: return_def)
  show ?thesis
  proof (cases ra)
    case (Inl e)
    then show ?thesis using assms a
      by (simp add: save_def try_catch_def and_then_def log_and_rethrow_def)
  next
    case ra: (Inr ua)
    show ?thesis
    proof (cases rb)
      case (Inl e)
      then show ?thesis using assms a b ra
        by (simp add: save_def try_catch_def and_then_def log_and_rethrow_def)
    next
      case rb: (Inr ub)
      obtain rc fsc where w: "writeFile (stringify yaml (promptsToJS X)) fsb = (rc, fsc)"
        by (cases "writeFile (stringify yaml (promptsToJS X)) fsb")
      have "rc = Inr u \<and> fsc = fs1"
        using assms a b ra rb w
        by (cases rc) (simp_all add: save_def try_catch_def and_then_def log_and_rethrow_def)
      then have "writeFile (stringify yaml (promptsToJS X)) fsb = (Inr u, fs1)" using w by simp
      from writeFile_Inr [OF this] show ?thesis using fa fb by simp
    qed
  qed
qed




section \<open>Saving, then loading\<close>

lemma wellFormedRecord_promptToJS: "wellFormedRecord (promptToJS p)"
  by (simp add: wellFormedRecord_def promptToJS_def hasString_def optional_property_def
      metadataToJS_def split: option.splits)

lemma Object_entries_promptsToJS:
  "Object_entries (promptsToJS X) = map (\<lambda>(k, p). (k, promptToJS p)) X"
  by (simp add: Object_entries_def promptsToJS_def)

lemma map_fst_promptsToJS: "map fst (map (\<lambda>(k, p). (k, promptToJS p)) X) = map fst X"
  by (induction X) auto

lemma wf_obj_promptsToJS: "wf_obj X \<Longrightarrow> wf_obj (Object_entries (promptsToJS X))"
  using map_fst_promptsToJS [of X]
  by (simp add: wf_obj_def Object_entries_promptsToJS del: map_map) (metis list.set_map)

lemma all_wellFormed_promptsToJS:
  "filter (\<lambda>(k, v). \<not> wellFormedRecord v) (map (\<lambda>(k, p). (k, promptToJS p)) X) = []"
  by (induction X) (auto simp: wellFormedRecord_promptToJS)

text \<open>
  Claim C7. Let \<open>X\<close> be a mapping of typed records (distinct keys, none of them
  \<open>__proto__\<close>), and let the YAML library read back the document it writes for \<open>X\<close>.
  If \<open>save(X)\<close> succeeds and the file can be read, the \<open>load\<close> that follows
  succeeds, logs nothing, changes nothing in the file system, and returns a mapping with
  exactly the keys of \<open>X\<close>, each holding the record \<open>X\<close> holds under it.
\<close>

theorem save_load_round_trip:
  assumes "parse yaml (stringify yaml (promptsToJS X)) = Inr (promptsToJS X)"
    and "wf_obj X"
    and "save yaml now X fs = (Inr (), fs1)"
    and "ReadFile \<notin> set (faults fs)"
  shows "\<exists>result. load yaml now' fs1 = (Inr result, fs1)
           \<and> wf_obj result
           \<and> (\<forall>k. map_of result k = map_option promptToJS (map_of X k))"
proof -
  let ?doc = "promptsToJS X"
  let ?es = "map (\<lambda>(k, p). (k, promptToJS p)) X"
  from save_Inr [OF assms(3)] have
    f: "dataFile fs1 = Some (stringify yaml ?doc)" "dataDirExists fs1" "faults fs1 = faults fs"
    by simp_all
  have rf: "ReadFile \<notin> set (faults fs1)" using assms(4) f(3) by simp
  have t: "js_truthy ?doc" by (simp add: js_truthy_def promptsToJS_def)
  have run: "load yaml now' fs1
               = (Inr (fst (validateAndTransformData ?doc)),
                  fs1\<lparr>console := console fs1 @ snd (validateAndTransformData ?doc)\<rparr>)"
    using load_existing_file [OF f(2) f(1) rf, of yaml now'] assms(1) t by simp
  note v = validateAndTransformData_object [OF wf_obj_promptsToJS [OF assms(2)],
      unfolded Object_entries_promptsToJS]
  have nowarn: "snd (validateAndTransformData ?doc) = []"
    using v by (simp add: all_wellFormed_promptsToJS)
  have wf: "wf_obj (fst (validateAndTransformData ?doc))" using v by simp
  have look: "map_of (fst (validateAndTransformData ?doc)) k = map_option promptToJS (map_of X k)"
    for k
  proof (cases "map_of ?es k")
    case None
    then have "map_of (fst (validateAndTransformData ?doc)) k = None"
      using v by (cases "map_of (fst (validateAndTransformData ?doc)) k") auto
    then show ?thesis using None by (simp add: map_of_map)
  next
    case (Some w)
    then obtain p where p: "map_of X k = Some p" "w = promptToJS p"
      by (auto simp: map_of_map)
    then have "wellFormedRecord w" by (simp add: wellFormedRecord_promptToJS)
    then have "map_of (fst (validateAndTransformData ?doc)) k = Some w" using v Some by simp
    then show ?thesis using p by simp
  qed
  have same: "fs1\<lparr>console := console fs1 @ snd (validateAndTransformData ?doc)\<rparr> = fs1"
    by (simp add: nowarn)
  show ?thesis
    apply (rule exI [of _ "fst (validateAndTransformData ?doc)"])
    using run wf look unfolding same by simp
qed


text \<open>The round trip of the unit test, from a directory that has no data file yet.\<close>

theorem save_load_round_trip_witness:
  "parse testYAML (stringify testYAML (promptsToJS [(''123'', testPrompt)]))
     = Inr (promptsToJS [(''123'', testPrompt)])
   \<and> wf_obj [(''123'', testPrompt)]
   \<and> ReadFile \<notin> set (faults (fileSystemWith None :: (jsval option) FileSystem))
   \<and> (\<exists>fs1 result.
         save testYAML ''2024-05-01T10:00:00.000Z'' [(''123'', testPrompt)] (fileSystemWith None)
           = (Inr (), fs1)
         \<and> load testYAML ''2024-05-01T10:00:01.000Z'' fs1 = (Inr result, fs1)
         \<and> map_of result ''123'' = Some (promptToJS testPrompt)
         \<and> map_of result ''456'' = None)"
proof -
  let ?X = "[(''123'', testPrompt)]"
  let ?fs = "fileSystemWith None :: (jsval option) FileSystem"
  let ?fs1 = "?fs\<lparr>dataFile := Some (Some (promptsToJS ?X))\<rparr>"
  have codec: "parse testYAML (stringify testYAML (promptsToJS ?X)) = Inr (promptsToJS ?X)"
    by (simp add: testYAML_def)
  have wf: "wf_obj ?X" by (simp add: wf_obj_def)
  have rf: "ReadFile \<notin> set (faults ?fs)" by (simp add: fileSystemWith_def)
  have sv: "save testYAML ''2024-05-01T10:00:00.000Z'' ?X ?fs = (Inr (), ?fs1)"
    by (simp add: save_def try_catch_def and_then_def return_def ensureDirectoryExists_def
        path_exists_def fileExists_def writeFile_def fileSystemWith_def testYAML_def)
  from save_load_round_trip [OF codec wf sv rf, of "''2024-05-01T10:00:01.000Z''"]
  obtain result where
    r: "load testYAML ''2024-05-01T10:00:01.000Z'' ?fs1 = (Inr result, ?fs1)"
    and l: "\<forall>k. map_of result k = map_option promptToJS (map_of ?X k)"
    by (elim exE conjE)
  have l1: "map_of result ''123'' = Some (promptToJS testPrompt)"
    using l [rule_format, of "''123''"] by simp
  have l2: "map_of result ''456'' = None"
    using l [rule_format, of "''456''"] by simp
  have "\<exists>fs1 result.
         save testYAML ''2024-05-01T10:00:00.000Z'' ?X ?fs = (Inr (), fs1)
         \<and> load testYAML ''2024-05-01T10:00:01.000Z'' fs1 = (Inr result, fs1)
         \<and> map_of result ''123'' = Some (promptToJS testPrompt)
         \<and> map_of result ''456'' = None"
    apply (rule exI [of _ ?fs1])
    apply (rule exI [of _ result])
    using sv r l1 l2 by (intro conjI) assumption+
  then show ?thesis using codec wf rf by (intro conjI) assumption+
qed

section \<open>Backup retention\<close>








lemma backup_name_known:
  "backupFileName now \<in> fst ` set (backupFiles fs) \<longleftrightarrow> backupFileName now \<in> set (backupNames fs)"
proof -
  have "backupFileName now \<in> set (backupNames fs)
          \<longleftrightarrow> backupFileName now \<in> set (map fst (backupFiles fs))"
    unfolding backupNames_def using isBackupFile_backupFileName [of now]
    by (simp only: set_sort set_filter mem_Collect_eq simp_thms)
  then show ?thesis by (simp only: set_map)
qed


lemma sort_snoc: "sort (xs @ [x]) = insort x (sort xs)"
  by (rule properties_for_sort) (simp_all add: sorted_insort)

lemma names_after_copy:
  "sort (filter isBackupFile (map fst (put_file (backupFileName now) txt (backupFiles fs))))
     = (if backupFileName now \<in> set (backupNames fs) then backupNames fs
        else insort (backupFileName now) (backupNames fs))"
proof (cases "backupFileName now \<in> fst ` set (backupFiles fs)")
  case True
  then have "map fst (put_file (backupFileName now) txt (backupFiles fs)) = map fst (backupFiles fs)"
    by (simp only: map_fst_put_file if_True)
  then show ?thesis using True backup_name_known [of now fs]
    by (simp only: backupNames_def if_True)
next
  case False
  have m: "map fst (put_file (backupFileName now) txt (backupFiles fs))
             = map fst (backupFiles fs) @ [backupFileName now]"
    using False by (simp only: map_fst_put_file if_False)
  have f: "filter isBackupFile (map fst (backupFiles fs) @ [backupFileName now])
             = filter isBackupFile (map fst (backupFiles fs)) @ [backupFileName now]"
    using isBackupFile_backupFileName [of now] by simp
  have n: "backupFileName now \<notin> set (backupNames fs)"
    using False backup_name_known [of now fs] by simp
  show ?thesis
    unfolding m f sort_snoc using n by (simp only: backupNames_def if_False)
qed














section \<open>The name of a backup\<close>

lemma less_append_same_prefix:
  fixes x y :: string
  shows "(p @ x < p @ y) = (x < y)"
  by (induction p) simp_all

lemma less_append_same_suffix:
  fixes x y :: string
  shows "length x = length y \<Longrightarrow> (x @ s < y @ s) = (x < y)"
  by (induction x y rule: list_induct2) simp_all

text \<open>
  Replacing \<open>:\<close> and \<open>.\<close> by \<open>-\<close> keeps the order of two texts that have their
  punctuation at the same places.
\<close>

lemma replace_keeps_order:
  fixes a b :: string
  assumes "list_all2 (\<lambda>x y. x = y \<or> (f x = x \<and> f y = y)) a b"
  shows "(map f a < map f b \<longleftrightarrow> a < b) \<and> (map f a = map f b \<longleftrightarrow> a = b)"
  using assms
proof (induction rule: list_all2_induct)
  case Nil
  show ?case by simp
next
  case (Cons x xs y ys)
  note IH = Cons.IH
  from Cons.hyps(1) show ?case
  proof
    assume "x = y"
    then show ?thesis using IH by simp
  next
    assume h: "f x = x \<and> f y = y"
    have m: "map f (x # xs) = x # map f xs" "map f (y # ys) = y # map f ys"
      using h by simp_all
    show ?thesis unfolding m using IH by simp
  qed
qed

lemma isDigit_not_punct: "isDigit c \<Longrightarrow> c \<noteq> CHR '':'' \<and> c \<noteq> CHR ''.''"
  by (auto simp: isDigit_def less_eq_char_def)

lemma matchesPattern_same_place:
  assumes "matchesPattern t x" "matchesPattern t y"
  shows "x = y \<or> ((if x = CHR '':'' \<or> x = CHR ''.'' then CHR ''-'' else x) = x
                 \<and> (if y = CHR '':'' \<or> y = CHR ''.'' then CHR ''-'' else y) = y)"
proof (cases "t = CHR ''d''")
  case True
  then have "isDigit x" "isDigit y" using assms by (simp_all add: matchesPattern_def)
  then show ?thesis using isDigit_not_punct [of x] isDigit_not_punct [of y] by simp
next
  case False
  then have "x = t" "y = t" using assms by (simp_all add: matchesPattern_def)
  then show ?thesis by simp
qed

lemma list_all2_same_pattern:
  assumes "list_all2 P ts a" "list_all2 P ts b"
    and "\<And>t x y. P t x \<Longrightarrow> P t y \<Longrightarrow> R x y"
  shows "list_all2 R a b"
  using assms(1,2)
proof (induction arbitrary: b rule: list_all2_induct)
  case Nil
  then show ?case by simp
next
  case (Cons t ts x xs)
  from Cons.prems obtain y ys where b: "b = y # ys" "P t y" "list_all2 P ts ys"
    by (cases b) auto
  show ?case using b Cons.hyps(1) Cons.IH [OF b(3)] assms(3) by simp
qed

lemma iso_same_places:
  assumes "isISOTimestamp a" "isISOTimestamp b"
  shows "list_all2 (\<lambda>x y. x = y \<or> ((if x = CHR '':'' \<or> x = CHR ''.'' then CHR ''-'' else x) = x
                 \<and> (if y = CHR '':'' \<or> y = CHR ''.'' then CHR ''-'' else y) = y)) a b"
  using assms unfolding isISOTimestamp_def
  by (rule list_all2_same_pattern) (rule matchesPattern_same_place)

lemma isISOTimestamp_length: "isISOTimestamp a \<Longrightarrow> length a = 24"
  unfolding isISOTimestamp_def by (drule list_all2_lengthD) simp

lemma backupFileName_order_iso:
  assumes "isISOTimestamp a" "isISOTimestamp b"
  shows "(backupFileName a < backupFileName b \<longleftrightarrow> a < b)"
    and "(backupFileName a = backupFileName b \<longleftrightarrow> a = b)"
proof -
  let ?f = "\<lambda>c. if c = CHR '':'' \<or> c = CHR ''.'' then CHR ''-'' else c"
  note k = replace_keeps_order [where f = ?f, OF iso_same_places [OF assms]]
  have len: "length (map ?f a) = length (map ?f b)"
    using isISOTimestamp_length [OF assms(1)] isISOTimestamp_length [OF assms(2)] by simp
  have "(backupFileName a < backupFileName b) = (map ?f a @ ''.yaml'' < map ?f b @ ''.yaml'')"
    unfolding backupFileName_def by (rule less_append_same_prefix)
  also have "\<dots> = (map ?f a < map ?f b)" using len by (rule less_append_same_suffix)
  also have "\<dots> = (a < b)" using k by (rule conjunct1)
  finally show "(backupFileName a < backupFileName b \<longleftrightarrow> a < b)" .
  have "(backupFileName a = backupFileName b) = (map ?f a = map ?f b)"
    unfolding backupFileName_def by simp
  also have "\<dots> = (a = b)" using k by (rule conjunct2)
  finally show "(backupFileName a = backupFileName b \<longleftrightarrow> a = b)" .
qed

lemma backup_adds_named_file:
  assumes "dataFile fs = Some txt" "faults fs = []" "wf_fs fs" "length (backupNames fs) < 10"
  shows "fst (backup now fs) = Inr ()"
    and "backupFileName now \<in> set (backupNames (snd (backup now fs)))"
proof -
  have nf: "CopyFile \<notin> set (faults fs)" "backupDir fs = None \<longrightarrow> Mkdir \<notin> set (faults fs)"
    "Readdir \<notin> set (faults fs)" "\<forall>n. Unlink n \<notin> set (faults fs)"
    using assms(2) by simp_all
  from backup_pruned [OF assms(1) nf assms(3), of now] obtain fs' where
    b: "backup now fs = (Inr (), fs')" and
    n: "backupNames fs'
          = lastN 10 (sort (filter isBackupFile
              (map fst (put_file (backupFileName now) txt (backupFiles fs)))))"
    by (elim exE conjE)
  show "fst (backup now fs) = Inr ()" using b by simp
  let ?L = "if backupFileName now \<in> set (backupNames fs) then backupNames fs
            else insort (backupFileName now) (backupNames fs)"
  have len: "length ?L \<le> 10" using assms(4) by simp
  have mem: "backupFileName now \<in> set ?L" by (simp add: set_insort_key)
  have "backupNames fs' = ?L" unfolding n names_after_copy using len by (simp add: lastN_def)
  then show "backupFileName now \<in> set (backupNames (snd (backup now fs)))"
    using mem b by simp
qed


text \<open>
  Claim C9, as the code has it. The name of a backup is the clock reading of the call,
  an ISO timestamp with milliseconds, with its colons and its dot replaced by dashes,
  between a fixed prefix and a fixed suffix. For two calls the names are therefore
  ordered as the readings are, and they are equal exactly when the readings are equal:
  successive calls get increasing, distinct names exactly when the clock readings
  increase. \<open>backup\<close> itself neither counts the calls nor looks for an existing file
  of that name. With a data file present, nothing failing and fewer than ten backups
  in the directory, the call returns normally and the file of that name is among the
  backups afterwards.
\<close>

theorem backupFileName_follows_clock:
  assumes "isISOTimestamp a" "isISOTimestamp b"
  shows "(backupFileName a < backupFileName b \<longleftrightarrow> a < b)
       \<and> (backupFileName a = backupFileName b \<longleftrightarrow> a = b)
       \<and> (\<forall>fs txt. dataFile fs = Some txt \<and> faults fs = [] \<and> wf_fs fs
                    \<and> length (backupNames fs) < 10 \<longrightarrow>
              fst (backup a fs) = Inr ()
              \<and> backupFileName a \<in> set (backupNames (snd (backup a fs))))"
proof (intro conjI allI impI)
  show "(backupFileName a < backupFileName b) = (a < b)"
    using assms by (rule backupFileName_order_iso(1))
  show "(backupFileName a = backupFileName b) = (a = b)"
    using assms by (rule backupFileName_order_iso(2))
next
  fix fs :: "'t FileSystem" and c
  assume h: "dataFile fs = Some c \<and> faults fs = [] \<and> wf_fs fs \<and> length (backupNames fs) < 10"
  then have p: "dataFile fs = Some c" "faults fs = []" "wf_fs fs" "length (backupNames fs) < 10"
    by simp_all
  show "fst (backup a fs) = Inr ()" using p by (rule backup_adds_named_file(1))
  show "backupFileName a \<in> set (backupNames (snd (backup a fs)))"
    using p by (rule backup_adds_named_file(2))
qed

text \<open>Two readings one millisecond apart give two names in the same order.\<close>

theorem backupFileName_follows_clock_witness:
  "isISOTimestamp ''2024-05-01T10:00:00.000Z''
   \<and> isISOTimestamp ''2024-05-01T10:00:00.001Z''
   \<and> ''2024-05-01T10:00:00.000Z'' < ''2024-05-01T10:00:00.001Z''
   \<and> backupFileName ''2024-05-01T10:00:00.000Z'' < backupFileName ''2024-05-01T10:00:00.001Z''
   \<and> backupFileName ''2024-05-01T10:00:00.000Z'' \<noteq> backupFileName ''2024-05-01T10:00:00.001Z''
   \<and> backupFileName ''2024-05-01T10:00:00.000Z''
       \<in> set (backupNames (snd (backup ''2024-05-01T10:00:00.000Z''
                 (fileSystemWith (Some (Some (JObj []))) :: (jsval option) FileSystem))))"
proof -
  let ?fs = "fileSystemWith (Some (Some (JObj []))) :: (jsval option) FileSystem"
  have a: "isISOTimestamp ''2024-05-01T10:00:00.000Z''" by code_simp
  have b: "isISOTimestamp ''2024-05-01T10:00:00.001Z''" by code_simp
  have l: "''2024-05-01T10:00:00.000Z'' < ''2024-05-01T10:00:00.001Z''" by code_simp
  have n: "''2024-05-01T10:00:00.000Z'' \<noteq> ''2024-05-01T10:00:00.001Z''" by simp
  note main = backupFileName_follows_clock [OF a b]
  have h: "dataFile ?fs = Some (Some (JObj [])) \<and> faults ?fs = [] \<and> wf_fs ?fs
           \<and> length (backupNames ?fs) < 10"
    by code_simp
  have 1: "backupFileName ''2024-05-01T10:00:00.000Z'' < backupFileName ''2024-05-01T10:00:00.001Z''"
    using conjunct1 [OF main] l by simp
  have 2: "backupFileName ''2024-05-01T10:00:00.000Z'' \<noteq> backupFileName ''2024-05-01T10:00:00.001Z''"
    using conjunct1 [OF conjunct2 [OF main]] n by simp
  have 3: "backupFileName ''2024-05-01T10:00:00.000Z''
       \<in> set (backupNames (snd (backup ''2024-05-01T10:00:00.000Z'' ?fs)))"
    by (rule conjunct2 [OF conjunct2 [OF conjunct2 [OF main], rule_format, OF h]])
  show ?thesis using a b l 1 2 3 by (intro conjI) assumption+
qed

text \<open>
  Two successive backups of an existing data file that read the same millisecond both
  return normally and produce the same file name: one backup file is left.
\<close>

theorem backup_same_reading_counterexample:
  "fst (backup ''2024-05-01T10:00:00.000Z''
          (fileSystemWith (Some (Some (JObj []))) :: (jsval option) FileSystem)) = Inr ()
   \<and> fst (backup ''2024-05-01T10:00:00.000Z''
          (snd (backup ''2024-05-01T10:00:00.000Z''
             (fileSystemWith (Some (Some (JObj []))) :: (jsval option) FileSystem)))) = Inr ()
   \<and> backupNames (snd (backup ''2024-05-01T10:00:00.000Z''
          (snd (backup ''2024-05-01T10:00:00.000Z''
             (fileSystemWith (Some (Some (JObj []))) :: (jsval option) FileSystem)))))
       = [''prompts-backup-2024-05-01T10-00-00-000Z.yaml'']"
  by code_simp

end
